theory Spec2Isabelle
  imports Main "HOL-Library.Word"
begin

section \<open>The data model of package getopts\<close>

text \<open>
  A shallow embedding of \<open>getopts/option.go\<close>.

  Go strings are byte sequences, indexed by byte: they are modelled as \<open>string\<close>
  (lists of 8-bit \<open>char\<close>), and a Go \<open>byte\<close> as \<open>char\<close>.  Go's \<open>int\<close> is a
  two's-complement machine integer whose increment wraps around; the model fixes the
  64-bit width of the common targets, so \<open>Count\<close> is a \<open>64 word\<close>, read as a
  signed number by \<open>sint\<close>.

  The callbacks \<open>OnTrue\<close>, \<open>OnFalse\<close>, \<open>Action\<close> and \<open>OnRestArg\<close> are arbitrary Go
  functions.  They are modelled as transformers of a caller-owned state \<open>'u\<close>, which
  the parser threads through in call order and otherwise never reads; callbacks that
  write to the registry or to a Flag or Option during a parse are outside the model.
  A callback field that is \<open>nil\<close> is \<open>None\<close>.

  The struct \<open>option\<close> that \<open>Flag\<close> and \<open>Option\<close> embed is the record
  \<open>option_base\<close>, which both records extend.
\<close>

record Rest =
  Argument :: string
  AfterDashes :: bool

record option_base =
  ShortOpt :: char
  LongOpt :: string
  Help :: string
  Passed :: bool
  takesArg :: bool

record 'u Option = option_base +
  OptArg :: string
  OptArgs :: "string list"
  Action :: "(string \<Rightarrow> 'u \<Rightarrow> 'u) option"

record 'u Flag = option_base +
  Count :: "64 word"
  OnTrue :: "('u \<Rightarrow> 'u) option"
  OnFalse :: "('u \<Rightarrow> 'u) option"

text \<open>
  A \<open>parameter\<close> is an interface value holding a \<open>*Flag\<close> or an \<open>*Option\<close>.  The
  objects pointed to live in a heap of cells; a pointer is the index of its cell, and
  the dynamic type of the interface value is the kind of the cell.
\<close>

datatype 'u cell = FlagCell "'u Flag" | OptionCell "'u Option"

type_synonym ref = nat

record 'u world =
  heap :: "'u cell list"
  Options :: "'u Option list"
  Flags :: "'u Flag list"
  paramsByShort :: "char \<rightharpoonup> ref"
  paramsByLong :: "string \<rightharpoonup> ref"
  OnRestArg :: "(string \<Rightarrow> bool \<Rightarrow> 'u \<Rightarrow> bool \<times> 'u) option"
  user :: 'u

datatype error =
    errUnrecognizedShort char
  | errUnrecognizedLong string
  | errTriedToNegateOptArg char
  | errPassedOptargToFlag string

section \<open>Deliveries\<close>

text \<open>
  The methods \<open>Flag.takeValue\<close> and \<open>Option.addOptArg\<close> on the object they are
  called on, and the function \<open>addRest\<close>, which reads the package variable
  \<open>OnRestArg\<close>.
\<close>

definition takeValue :: "bool \<Rightarrow> 'u Flag \<Rightarrow> 'u \<Rightarrow> 'u Flag \<times> 'u" where
  "takeValue v f u =
     (let f1 = (if v then f\<lparr>Count := Count f + 1\<rparr> else f\<lparr>Count := Count f - 1\<rparr>);
          f2 = f1\<lparr>Passed := v\<rparr>
      in (f2,
          case (v, OnTrue f2, OnFalse f2) of
            (True, Some g, _) \<Rightarrow> g u
          | (False, _, Some g) \<Rightarrow> g u
          | _ \<Rightarrow> u))"

definition addOptArg :: "string \<Rightarrow> 'u Option \<Rightarrow> 'u \<Rightarrow> 'u Option \<times> 'u" where
  "addOptArg arg opt u =
     (let o1 = opt\<lparr>OptArgs := OptArgs opt @ [arg]\<rparr>;
          o2 = o1\<lparr>OptArg := arg\<rparr>;
          o3 = o2\<lparr>Passed := True\<rparr>
      in (o3, case Action o3 of Some g \<Rightarrow> g arg u | None \<Rightarrow> u))"

definition addRest :: "'u world \<Rightarrow> Rest list \<Rightarrow> string \<Rightarrow> bool \<Rightarrow> Rest list \<times> 'u world" where
  "addRest w rest arg dash =
     (case OnRestArg w of
        Some g \<Rightarrow>
          (let (keep, u') = g arg dash (user w)
           in (if keep then rest @ [\<lparr>Argument = arg, AfterDashes = dash\<rparr>] else rest,
               w\<lparr>user := u'\<rparr>))
      | None \<Rightarrow> (rest @ [\<lparr>Argument = arg, AfterDashes = dash\<rparr>], w))"

subsection \<open>Pointers into the heap\<close>

text \<open>
  \<open>takesArgument\<close> reads the \<open>takesArg\<close> field through the pointer; \<open>asFlag\<close> and
  \<open>asOption\<close> are the type assertions \<open>p.(*Flag)\<close> and \<open>p.(*Option)\<close>.  \<open>None\<close> is the
  run-time panic (a failed assertion, or a pointer to no object).  \<open>takeValueAt\<close> is
  the call \<open>p.(*Flag).takeValue(v)\<close> and \<open>addOptArgAt\<close> the call
  \<open>p.(*Option).addOptArg(arg)\<close>: the object in the heap is replaced by the updated
  one, so every pointer to it, from either map, sees the update.
\<close>

definition takesArgument :: "'u world \<Rightarrow> ref \<Rightarrow> bool option" where
  "takesArgument w p =
     (if p < length (heap w)
      then Some (case heap w ! p of FlagCell f \<Rightarrow> takesArg f | OptionCell opt \<Rightarrow> takesArg opt)
      else None)"

definition asFlag :: "'u world \<Rightarrow> ref \<Rightarrow> 'u Flag option" where
  "asFlag w p =
     (if p < length (heap w)
      then (case heap w ! p of FlagCell f \<Rightarrow> Some f | OptionCell opt \<Rightarrow> None)
      else None)"

definition asOption :: "'u world \<Rightarrow> ref \<Rightarrow> 'u Option option" where
  "asOption w p =
     (if p < length (heap w)
      then (case heap w ! p of FlagCell f \<Rightarrow> None | OptionCell opt \<Rightarrow> Some opt)
      else None)"

definition takeValueAt :: "ref \<Rightarrow> bool \<Rightarrow> 'u world \<Rightarrow> 'u world option" where
  "takeValueAt p v w =
     (case asFlag w p of
        None \<Rightarrow> None
      | Some f \<Rightarrow>
          (let (f', u') = takeValue v f (user w)
           in Some (w\<lparr>heap := (heap w)[p := FlagCell f'], user := u'\<rparr>)))"

definition addOptArgAt :: "ref \<Rightarrow> string \<Rightarrow> 'u world \<Rightarrow> 'u world option" where
  "addOptArgAt p arg w =
     (case asOption w p of
        None \<Rightarrow> None
      | Some opt \<Rightarrow>
          (let (opt', u') = addOptArg arg opt (user w)
           in Some (w\<lparr>heap := (heap w)[p := OptionCell opt'], user := u'\<rparr>)))"

section \<open>Boolean spellings\<close>

text \<open>
  \<open>strings.EqualFold\<close> of the Go standard library compares two UTF-8 strings under
  simple Unicode case folding.  \<open>parseFlagOpt\<close> always passes an ASCII literal as the
  second string, and \<open>EqualFold\<close> below is the library function for an ASCII second
  string: an ASCII byte of the first string matches the same letter in either case
  (\<open>foldASCII\<close>); the only other runes that fold to an ASCII letter are U+017F (bytes
  C5 BF, folds to \<open>s\<close>) and U+212A (bytes E2 84 AA, folds to \<open>k\<close>); any other
  non-ASCII byte of the first string, valid UTF-8 or not, matches nothing.
\<close>

definition foldASCII :: "char \<Rightarrow> char \<Rightarrow> bool" where
  "foldASCII c d =
     (c = d \<or>
      (let sr = min (of_char c :: nat) (of_char d); tr = max (of_char c :: nat) (of_char d)
       in 65 \<le> sr \<and> sr \<le> 90 \<and> tr = sr + 32))"

fun EqualFold :: "string \<Rightarrow> string \<Rightarrow> bool" where
  "EqualFold [] [] = True"
| "EqualFold [] (d # t) = False"
| "EqualFold (c # s) [] = False"
| "EqualFold (c # s) (d # t) =
     (if (of_char c :: nat) < 128 then foldASCII c d \<and> EqualFold s t
      else if (of_char c :: nat) = 197 \<and> take 1 s = [char_of (191 :: nat)]
              \<and> (d = CHR ''s'' \<or> d = CHR ''S'')
           then EqualFold (drop 1 s) t
      else if (of_char c :: nat) = 226 \<and> take 2 s = [char_of (132 :: nat), char_of (170 :: nat)]
              \<and> (d = CHR ''k'' \<or> d = CHR ''K'')
           then EqualFold (drop 2 s) t
      else False)"

definition parseFlagOpt :: "string \<Rightarrow> string \<Rightarrow> error + bool" where
  "parseFlagOpt flag v =
     (if EqualFold v ''f'' then Inr False
      else if EqualFold v ''t'' then Inr True
      else if EqualFold v ''y'' then Inr True
      else if EqualFold v ''n'' then Inr False
      else if EqualFold v ''no'' then Inr False
      else if EqualFold v ''yes'' then Inr True
      else if EqualFold v ''true'' then Inr True
      else if EqualFold v ''false'' then Inr False
      else Inl (errPassedOptargToFlag flag))"

section \<open>Registration\<close>

text \<open>
  \<open>emptyWorld\<close> is the package state after initialisation, before any registration.
  \<open>checkShort\<close> and \<open>checkLong\<close> panic on a name that is already registered; the
  constructors return \<open>None\<close> for that panic.  A constructor appends a copy of the new
  object to the package-level slice and registers a pointer to the object itself, which
  is also the handle it returns.
\<close>

definition emptyWorld :: "'u \<Rightarrow> 'u world" where
  "emptyWorld u =
     \<lparr>heap = [], Options = [], Flags = [], paramsByShort = Map.empty,
      paramsByLong = Map.empty, OnRestArg = None, user = u\<rparr>"

definition resetParams :: "'u world \<Rightarrow> 'u world" where
  "resetParams w =
     w\<lparr>paramsByShort := Map.empty, paramsByLong := Map.empty,
       Options := [], Flags := [], OnRestArg := None\<rparr>"

definition checkShort :: "'u world \<Rightarrow> char \<Rightarrow> bool" where
  "checkShort w s = (paramsByShort w s = None)"

definition checkLong :: "'u world \<Rightarrow> string \<Rightarrow> bool" where
  "checkLong w l = (paramsByLong w l = None)"

definition newFlagObj :: "char \<Rightarrow> string \<Rightarrow> string \<Rightarrow> 'u Flag" where
  "newFlagObj s l h =
     \<lparr>ShortOpt = s, LongOpt = l, Help = h, Passed = False, takesArg = False,
      Count = 0, OnTrue = None, OnFalse = None\<rparr>"

definition newOptionObj :: "char \<Rightarrow> string \<Rightarrow> string \<Rightarrow> 'u Option" where
  "newOptionObj s l h =
     \<lparr>ShortOpt = s, LongOpt = l, Help = h, Passed = False, takesArg = True,
      OptArg = [], OptArgs = [], Action = None\<rparr>"

definition NewFlag :: "char \<Rightarrow> string \<Rightarrow> string \<Rightarrow> 'u world \<Rightarrow> (ref \<times> 'u world) option" where
  "NewFlag s l h w =
     (if \<not> checkShort w s then None
      else if \<not> checkLong w l then None
      else let flag = newFlagObj s l h; p = length (heap w)
           in Some (p, w\<lparr>heap := heap w @ [FlagCell flag],
                          Flags := Flags w @ [flag],
                          paramsByShort := (paramsByShort w)(s \<mapsto> p),
                          paramsByLong := (paramsByLong w)(l \<mapsto> p)\<rparr>))"

definition NewFlagShort :: "char \<Rightarrow> string \<Rightarrow> 'u world \<Rightarrow> (ref \<times> 'u world) option" where
  "NewFlagShort s h w =
     (if \<not> checkShort w s then None
      else let flag = newFlagObj s [] h; p = length (heap w)
           in Some (p, w\<lparr>heap := heap w @ [FlagCell flag],
                          Flags := Flags w @ [flag],
                          paramsByShort := (paramsByShort w)(s \<mapsto> p)\<rparr>))"

definition NewFlagLong :: "string \<Rightarrow> string \<Rightarrow> 'u world \<Rightarrow> (ref \<times> 'u world) option" where
  "NewFlagLong l h w =
     (if \<not> checkLong w l then None
      else let flag = newFlagObj (char_of (0 :: nat)) l h; p = length (heap w)
           in Some (p, w\<lparr>heap := heap w @ [FlagCell flag],
                          Flags := Flags w @ [flag],
                          paramsByLong := (paramsByLong w)(l \<mapsto> p)\<rparr>))"

definition NewOption :: "char \<Rightarrow> string \<Rightarrow> string \<Rightarrow> 'u world \<Rightarrow> (ref \<times> 'u world) option" where
  "NewOption s l h w =
     (if \<not> checkShort w s then None
      else if \<not> checkLong w l then None
      else let opt = newOptionObj s l h; p = length (heap w)
           in Some (p, w\<lparr>heap := heap w @ [OptionCell opt],
                          Options := Options w @ [opt],
                          paramsByShort := (paramsByShort w)(s \<mapsto> p),
                          paramsByLong := (paramsByLong w)(l \<mapsto> p)\<rparr>))"

definition NewOptionShort :: "char \<Rightarrow> string \<Rightarrow> 'u world \<Rightarrow> (ref \<times> 'u world) option" where
  "NewOptionShort s h w =
     (if \<not> checkShort w s then None
      else let opt = newOptionObj s [] h; p = length (heap w)
           in Some (p, w\<lparr>heap := heap w @ [OptionCell opt],
                          Options := Options w @ [opt],
                          paramsByShort := (paramsByShort w)(s \<mapsto> p)\<rparr>))"

definition NewOptionLong :: "string \<Rightarrow> string \<Rightarrow> 'u world \<Rightarrow> (ref \<times> 'u world) option" where
  "NewOptionLong l h w =
     (if \<not> checkLong w l then None
      else let opt = newOptionObj (char_of (0 :: nat)) l h; p = length (heap w)
           in Some (p, w\<lparr>heap := heap w @ [OptionCell opt],
                          Options := Options w @ [opt],
                          paramsByLong := (paramsByLong w)(l \<mapsto> p)\<rparr>))"

section \<open>ArgParse\<close>

text \<open>
  The local variables of \<open>ArgParse\<close> together with the package state.  The loop index
  is represented by the list of tokens still to be read.
\<close>

record 'u frame =
  world :: "'u world"
  rest :: "Rest list"
  expect_optarg :: bool
  waiting_opt :: "ref option"

text \<open>
  What one round of the loop does: go on with the next token (\<open>Continue\<close>, also after
  \<open>break\<close> and \<open>continue\<close>), return from \<open>ArgParse\<close> with or without an error
  (\<open>Return\<close>), or panic.
\<close>

datatype 'u outcome = Continue "'u frame" | Return "'u frame" "error option" | Panic

text \<open>The statement \<open>rest = addRest(rest, arg, dash)\<close>.\<close>

definition restArg :: "'u frame \<Rightarrow> string \<Rightarrow> bool \<Rightarrow> 'u frame" where
  "restArg fr arg dash =
     (let (r, w) = addRest (world fr) (rest fr) arg dash in fr\<lparr>world := w, rest := r\<rparr>)"

text \<open>
  \<open>strings.IndexByte\<close> of the Go standard library: the index of the first occurrence
  of the byte, or \<open>-1\<close>.
\<close>

definition IndexByte :: "string \<Rightarrow> char \<Rightarrow> int" where
  "IndexByte s c = (if c \<in> set s then int (length (takeWhile (\<lambda>b. b \<noteq> c) s)) else - 1)"

text \<open>
  The branches of the \<open>switch\<close> in \<open>ArgParse\<close> that look a name up, each as a
  function of the frame: the two-character token \<open>-c\<close> (source lines 324 to 333).
\<close>

definition shortOpt :: "'u frame \<Rightarrow> char \<Rightarrow> 'u outcome" where
  "shortOpt fr c =
     (case paramsByShort (world fr) c of
        Some p \<Rightarrow>
          (case takesArgument (world fr) p of
             None \<Rightarrow> Panic
           | Some True \<Rightarrow>
               (case asOption (world fr) p of
                  None \<Rightarrow> Panic
                | Some _ \<Rightarrow> Continue (fr\<lparr>waiting_opt := Some p, expect_optarg := True\<rparr>))
           | Some False \<Rightarrow>
               (case takeValueAt p True (world fr) of
                  None \<Rightarrow> Panic
                | Some w \<Rightarrow> Continue (fr\<lparr>world := w\<rparr>)))
      | None \<Rightarrow> Return fr (Some (errUnrecognizedShort c)))"

text \<open>
  One negated character: the token \<open>+c\<close> (lines 335 to 343), and each round of the
  negated clump (lines 410 to 418), which are the same code.
\<close>

definition negShort :: "'u frame \<Rightarrow> char \<Rightarrow> 'u outcome" where
  "negShort fr c =
     (case paramsByShort (world fr) c of
        Some p \<Rightarrow>
          (case takesArgument (world fr) p of
             None \<Rightarrow> Panic
           | Some True \<Rightarrow> Return fr (Some (errTriedToNegateOptArg c))
           | Some False \<Rightarrow>
               (case takeValueAt p False (world fr) of
                  None \<Rightarrow> Panic
                | Some w \<Rightarrow> Continue (fr\<lparr>world := w\<rparr>)))
      | None \<Rightarrow> Return fr (Some (errUnrecognizedShort c)))"

text \<open>
  A token \<open>--long\<close> without \<open>=\<close> (lines 356 to 365), and a token \<open>--long=optarg\<close>
  (lines 369 to 382).
\<close>

definition longOpt :: "'u frame \<Rightarrow> string \<Rightarrow> 'u outcome" where
  "longOpt fr long =
     (case paramsByLong (world fr) long of
        Some p \<Rightarrow>
          (case takesArgument (world fr) p of
             None \<Rightarrow> Panic
           | Some True \<Rightarrow>
               (case asOption (world fr) p of
                  None \<Rightarrow> Panic
                | Some _ \<Rightarrow> Continue (fr\<lparr>waiting_opt := Some p, expect_optarg := True\<rparr>))
           | Some False \<Rightarrow>
               (case takeValueAt p True (world fr) of
                  None \<Rightarrow> Panic
                | Some w \<Rightarrow> Continue (fr\<lparr>world := w\<rparr>)))
      | None \<Rightarrow> Return fr (Some (errUnrecognizedLong long)))"

definition longOptArg :: "'u frame \<Rightarrow> string \<Rightarrow> string \<Rightarrow> 'u outcome" where
  "longOptArg fr long optarg =
     (case paramsByLong (world fr) long of
        Some p \<Rightarrow>
          (case takesArgument (world fr) p of
             None \<Rightarrow> Panic
           | Some True \<Rightarrow>
               (case addOptArgAt p optarg (world fr) of
                  None \<Rightarrow> Panic
                | Some w \<Rightarrow> Continue (fr\<lparr>world := w\<rparr>))
           | Some False \<Rightarrow>
               (case parseFlagOpt long optarg of
                  Inl err \<Rightarrow> Return fr (Some err)
                | Inr v \<Rightarrow>
                    (case takeValueAt p v (world fr) of
                       None \<Rightarrow> Panic
                     | Some w \<Rightarrow> Continue (fr\<lparr>world := w\<rparr>))))
      | None \<Rightarrow> Return fr (Some (errUnrecognizedLong long)))"

text \<open>
  The clump loop \<open>for j := 1; j < len(arg); j++\<close> (lines 386 to 405), entered at
  index \<open>j\<close>.  The slice \<open>arg[j:]\<close> is \<open>drop j arg\<close>; \<open>break\<close> leaves the loop with
  \<open>Continue\<close>.
\<close>

function clump :: "'u frame \<Rightarrow> string \<Rightarrow> nat \<Rightarrow> 'u outcome" where
  "clump fr arg j =
     (if j < length arg then
        (case paramsByShort (world fr) (arg ! j) of
           Some p \<Rightarrow>
             (case takesArgument (world fr) p of
                None \<Rightarrow> Panic
              | Some True \<Rightarrow>
                  (if j < length arg - 1 then
                     (case addOptArgAt p (drop j arg) (world fr) of
                        None \<Rightarrow> Panic
                      | Some w \<Rightarrow> Continue (fr\<lparr>world := w\<rparr>))
                   else
                     (case asOption (world fr) p of
                        None \<Rightarrow> Panic
                      | Some _ \<Rightarrow>
                          clump (fr\<lparr>waiting_opt := Some p, expect_optarg := True\<rparr>) arg (j + 1)))
              | Some False \<Rightarrow>
                  (case takeValueAt p True (world fr) of
                     None \<Rightarrow> Panic
                   | Some w \<Rightarrow> clump (fr\<lparr>world := w\<rparr>) arg (j + 1)))
         | None \<Rightarrow> Return fr (Some (errUnrecognizedShort (arg ! j))))
      else Continue fr)"
  by pat_completeness auto
termination
  by (relation "measure (\<lambda>(fr, arg, j). length arg - j)") auto

declare clump.simps [simp del]

text \<open>The negated clump loop (lines 409 to 419), entered at index \<open>j\<close>.\<close>

function negClump :: "'u frame \<Rightarrow> string \<Rightarrow> nat \<Rightarrow> 'u outcome" where
  "negClump fr arg j =
     (if j < length arg then
        (case negShort fr (arg ! j) of
           Continue fr' \<Rightarrow> negClump fr' arg (j + 1)
         | Return fr' err \<Rightarrow> Return fr' err
         | Panic \<Rightarrow> Panic)
      else Continue fr)"
  by pat_completeness auto
termination
  by (relation "measure (\<lambda>(fr, arg, j). length arg - j)") auto

declare negClump.simps [simp del]

text \<open>
  \<open>body\<close> is one round of the main loop (lines 303 to 424) on the token \<open>arg\<close>;
  \<open>args\<close> are the tokens after it, which only the terminator \<open>--\<close> reads, in its own
  loop to the end of the input.
\<close>

definition body :: "'u frame \<Rightarrow> string \<Rightarrow> string list \<Rightarrow> 'u outcome" where
  "body fr arg args =
     (if expect_optarg fr then
        (case waiting_opt fr of
           None \<Rightarrow> Panic
         | Some p \<Rightarrow>
             (case addOptArgAt p arg (world fr) of
                None \<Rightarrow> Panic
              | Some w \<Rightarrow> Continue (fr\<lparr>world := w, expect_optarg := False\<rparr>)))
      else if length arg = 0 then Continue fr
      else if length arg = 1 then Continue (restArg fr arg False)
      else if length arg = 2 then
        (if arg = ''--'' then Return (fold (\<lambda>a f. restArg f a True) args fr) None
         else if arg ! 0 = CHR ''-'' then shortOpt fr (arg ! 1)
         else if arg ! 0 = CHR ''+'' then negShort fr (arg ! 1)
         else Continue (restArg fr arg False))
      else if arg ! 0 = CHR ''-'' then
        (if arg ! 1 = CHR ''-'' then
           (let indexOfEquals = IndexByte arg CHR ''=''
            in if indexOfEquals < 0 then longOpt fr (drop 2 arg)
               else longOptArg fr (drop 2 (take (nat indexOfEquals) arg))
                                  (drop (nat indexOfEquals + 1) arg))
         else clump fr arg 1)
      else if arg ! 0 = CHR ''+'' then negClump fr arg 1
      else Continue (restArg fr arg False))"

datatype 'u result = Done "'u frame" "error option" | Crash

fun loop :: "'u frame \<Rightarrow> string list \<Rightarrow> 'u result" where
  "loop fr [] = Done fr None"
| "loop fr (arg # args) =
     (case body fr arg args of
        Continue fr' \<Rightarrow> loop fr' args
      | Return fr' err \<Rightarrow> Done fr' err
      | Panic \<Rightarrow> Crash)"

text \<open>
  \<open>ArgParse\<close> starts at index 1, so it skips \<open>argv[0]\<close> and returns at once on an
  empty \<open>argv\<close>.  Its result \<open>Done fr err\<close> carries the returned \<open>rest fr\<close> and
  \<open>err\<close>, and in \<open>world fr\<close> the package state and the objects it leaves behind;
  \<open>Crash\<close> is a panic.
\<close>

definition initFrame :: "'u world \<Rightarrow> 'u frame" where
  "initFrame w = \<lparr>world = w, rest = [], expect_optarg = False, waiting_opt = None\<rparr>"

definition ArgParse :: "string list \<Rightarrow> 'u world \<Rightarrow> 'u result" where
  "ArgParse argv w = loop (initFrame w) (drop 1 argv)"

section \<open>Notions used in the statements\<close>

text \<open>
  A sequence of deliveries to one Flag, and to one Option, threading the caller's state.
  \<open>net\<close> is the number of true deliveries minus the number of false ones.
\<close>

fun takeValues :: "bool list \<Rightarrow> 'u Flag \<Rightarrow> 'u \<Rightarrow> 'u Flag \<times> 'u" where
  "takeValues [] f u = (f, u)"
| "takeValues (v # vs) f u = (case takeValue v f u of (f', u') \<Rightarrow> takeValues vs f' u')"

fun addOptArgs :: "string list \<Rightarrow> 'u Option \<Rightarrow> 'u \<Rightarrow> 'u Option \<times> 'u" where
  "addOptArgs [] opt u = (opt, u)"
| "addOptArgs (a # as) opt u = (case addOptArg a opt u of (opt', u') \<Rightarrow> addOptArgs as opt' u')"

definition net :: "bool list \<Rightarrow> int" where
  "net vs = int (count_list vs True) - int (count_list vs False)"

text \<open>
  \<open>addOptArgsAt p as\<close> is a sequence of deliveries, in order, to the object that the
  pointer \<open>p\<close> points to.
\<close>

fun addOptArgsAt :: "ref \<Rightarrow> string list \<Rightarrow> 'u world \<Rightarrow> 'u world option" where
  "addOptArgsAt p [] w = Some w"
| "addOptArgsAt p (a # as) w =
     (case addOptArgAt p a w of None \<Rightarrow> None | Some w' \<Rightarrow> addOptArgsAt p as w')"

text \<open>
  \<open>historyKept\<close> holds of a package state in which every Option object that was passed
  has a history that is not empty.
\<close>

definition historyKept :: "'u world \<Rightarrow> bool" where
  "historyKept w =
     list_all (\<lambda>c. case c of FlagCell f \<Rightarrow> True
                   | OptionCell opt \<Rightarrow> Passed opt \<longrightarrow> OptArgs opt \<noteq> []) (heap w)"

text \<open>
  A pointer resolves to a Flag when it points to a \<open>Flag\<close> object that takes no
  argument, and to an Option when it points to an \<open>Option\<close> object that takes one, as
  the constructors set them up; a short name resolves to what its registered pointer
  resolves to.
\<close>

definition isFlag :: "'u world \<Rightarrow> ref \<Rightarrow> bool" where
  "isFlag w p = (case asFlag w p of Some f \<Rightarrow> \<not> takesArg f | None \<Rightarrow> False)"

definition isOption :: "'u world \<Rightarrow> ref \<Rightarrow> bool" where
  "isOption w p = (case asOption w p of Some opt \<Rightarrow> takesArg opt | None \<Rightarrow> False)"

definition shortIsFlag :: "'u world \<Rightarrow> char \<Rightarrow> bool" where
  "shortIsFlag w c = (case paramsByShort w c of Some p \<Rightarrow> isFlag w p | None \<Rightarrow> False)"

definition shortIsOption :: "'u world \<Rightarrow> char \<Rightarrow> bool" where
  "shortIsOption w c = (case paramsByShort w c of Some p \<Rightarrow> isOption w p | None \<Rightarrow> False)"

text \<open>
  \<open>deliverEach v cs\<close> delivers \<open>v\<close> to the Flag that each character of \<open>cs\<close> names,
  from left to right.
\<close>

fun deliverEach :: "bool \<Rightarrow> string \<Rightarrow> 'u world \<Rightarrow> 'u world option" where
  "deliverEach v [] w = Some w"
| "deliverEach v (c # cs) w =
     (case paramsByShort w c of
        None \<Rightarrow> None
      | Some p \<Rightarrow> (case takeValueAt p v w of None \<Rightarrow> None | Some w' \<Rightarrow> deliverEach v cs w'))"

text \<open>
  \<open>keepRest cb dash args u\<close> offers the arguments \<open>args\<close> to the callback \<open>cb\<close> one
  after the other, each once, with the tag \<open>dash\<close>: it returns the entries that are
  kept (all of them when there is no callback) and the caller's state after the calls.
\<close>

fun keepRest ::
  "(string \<Rightarrow> bool \<Rightarrow> 'u \<Rightarrow> bool \<times> 'u) option \<Rightarrow> bool \<Rightarrow> string list \<Rightarrow> 'u \<Rightarrow> Rest list \<times> 'u" where
  "keepRest cb dash [] u = ([], u)"
| "keepRest cb dash (a # as) u =
     (case cb of
        None \<Rightarrow> (case keepRest cb dash as u of
                   (rs, u') \<Rightarrow> (\<lparr>Argument = a, AfterDashes = dash\<rparr> # rs, u'))
      | Some g \<Rightarrow> (case g a dash u of
                    (keep, u1) \<Rightarrow> (case keepRest cb dash as u1 of
                       (rs, u2) \<Rightarrow> (if keep then \<lparr>Argument = a, AfterDashes = dash\<rparr> # rs else rs, u2))))"

text \<open>
  The tokens that the loop classifies as positional before the terminator: one
  character, or two or more characters of which the first is neither \<open>-\<close> nor \<open>+\<close>.
\<close>

definition positional :: "string \<Rightarrow> bool" where
  "positional arg \<longleftrightarrow> length arg = 1 \<or> (2 \<le> length arg \<and> arg ! 0 \<noteq> CHR ''-'' \<and> arg ! 0 \<noteq> CHR ''+'')"

text \<open>
  \<open>steps fr pre post\<close> is the frame after the loop has read the tokens \<open>pre\<close>
  (followed in the input by \<open>post\<close>) and has gone on after each of them.
\<close>

fun steps :: "'u frame \<Rightarrow> string list \<Rightarrow> string list \<Rightarrow> 'u frame option" where
  "steps fr [] post = Some fr"
| "steps fr (a # pre) post =
     (case body fr a (pre @ post) of
        Continue fr' \<Rightarrow> steps fr' pre post
      | Return fr' err \<Rightarrow> None
      | Panic \<Rightarrow> None)"

text \<open>
  The spellings that \<open>parseFlagOpt\<close> reads as true and as false, and the lowering of
  the ASCII letters \<open>A\<close> to \<open>Z\<close>.
\<close>

definition lower :: "char \<Rightarrow> char" where
  "lower c =
     (if 65 \<le> (of_char c :: nat) \<and> (of_char c :: nat) \<le> 90
      then char_of ((of_char c :: nat) + 32) else c)"

definition spellsTrue :: "string \<Rightarrow> bool" where
  "spellsTrue v \<longleftrightarrow>
     EqualFold v ''t'' \<or> EqualFold v ''y'' \<or> EqualFold v ''yes'' \<or> EqualFold v ''true''"

definition spellsFalse :: "string \<Rightarrow> bool" where
  "spellsFalse v \<longleftrightarrow>
     EqualFold v ''f'' \<or> EqualFold v ''n'' \<or> EqualFold v ''no'' \<or> EqualFold v ''false''"

text \<open>
  The registry of the examples: a Flag \<open>-v\<close>, \<open>--verbose\<close> and an Option \<open>-f\<close>,
  \<open>--file\<close>, registered in this order in the initial package state.
\<close>

definition demoWorld :: "'u \<Rightarrow> 'u world" where
  "demoWorld u =
     (case NewFlag CHR ''v'' ''verbose'' ''Increase verbosity'' (emptyWorld u) of
        None \<Rightarrow> emptyWorld u
      | Some (v, w1) \<Rightarrow>
          (case NewOption CHR ''f'' ''file'' ''Input file'' w1 of
             None \<Rightarrow> w1
           | Some (f, w2) \<Rightarrow> w2))"

text \<open>
  A registry is well formed when each registered pointer resolves to a Flag or to an
  Option; a frame is in order when its registry is well formed and, if an option is
  awaited, \<open>waiting_opt\<close> points to an Option.
\<close>

definition wellFormed :: "'u world \<Rightarrow> bool" where
  "wellFormed w \<longleftrightarrow>
     (\<forall>p \<in> ran (paramsByShort w) \<union> ran (paramsByLong w). isFlag w p \<or> isOption w p)"

definition frameOK :: "'u frame \<Rightarrow> bool" where
  "frameOK fr \<longleftrightarrow>
     wellFormed (world fr)
     \<and> (expect_optarg fr \<longrightarrow> (case waiting_opt fr of None \<Rightarrow> False | Some p \<Rightarrow> isOption (world fr) p))"

text \<open>
  For the tests of the repository: the package state after \<open>resetParams\<close>, and the
  \<open>Passed\<close> field read through a Flag handle after a parse that returned no error.
\<close>

definition testWorld :: "unit world" where
  "testWorld = resetParams (emptyWorld ())"

definition passedAt :: "'u result \<Rightarrow> ref \<Rightarrow> bool option" where
  "passedAt r p =
     (case r of
        Done fr err \<Rightarrow> (case err of None \<Rightarrow> map_option Passed (asFlag (world fr) p) | Some e \<Rightarrow> None)
      | Crash \<Rightarrow> None)"

section \<open>The example registry\<close>

lemma demoWorld_eq:
  "demoWorld u =
     \<lparr>heap = [FlagCell (newFlagObj CHR ''v'' ''verbose'' ''Increase verbosity''),
              OptionCell (newOptionObj CHR ''f'' ''file'' ''Input file'')],
      Options = [newOptionObj CHR ''f'' ''file'' ''Input file''],
      Flags = [newFlagObj CHR ''v'' ''verbose'' ''Increase verbosity''],
      paramsByShort = [CHR ''v'' \<mapsto> 0, CHR ''f'' \<mapsto> 1],
      paramsByLong = [''verbose'' \<mapsto> 0, ''file'' \<mapsto> 1],
      OnRestArg = None, user = u\<rparr>"
  by (simp add: demoWorld_def emptyWorld_def NewFlag_def NewOption_def checkShort_def checkLong_def Let_def)

lemmas demo_eval =
  demoWorld_eq initFrame_def ArgParse_def body_def clump.simps negClump.simps shortOpt_def
  negShort_def longOpt_def longOptArg_def takesArgument_def asOption_def asFlag_def
  takeValueAt_def takeValue_def addOptArgAt_def addOptArg_def restArg_def addRest_def
  newFlagObj_def newOptionObj_def IndexByte_def Let_def

section \<open>Deliveries to one Flag and to one Option\<close>

lemma takeValue_Count:
  "Count (fst (takeValue v f u)) = Count f + (if v then 1 else - 1)"
  by (simp add: takeValue_def Let_def)

lemma takeValue_Passed: "Passed (fst (takeValue v f u)) = v"
  by (simp add: takeValue_def Let_def)

lemma takeValue_takesArg: "takesArg (fst (takeValue v f u)) = takesArg f"
  by (simp add: takeValue_def Let_def)

lemma takeValues_Count:
  "Count (fst (takeValues vs f u)) = Count f + word_of_int (net vs)"
proof (induction vs arbitrary: f u)
  case Nil
  show ?case by (simp add: net_def)
next
  case (Cons v vs)
  obtain f' u' where tv: "takeValue v f u = (f', u')" by (cases "takeValue v f u")
  have c: "Count f' = Count f + (if v then 1 else - 1)"
    using takeValue_Count [of v f u] tv by simp
  have n: "net (v # vs) = (if v then 1 else - 1) + net vs"
    by (simp add: net_def)
  show ?case
    using Cons.IH [of f' u'] tv c n by simp
qed

lemma takeValues_Passed:
  "vs \<noteq> [] \<Longrightarrow> Passed (fst (takeValues vs f u)) = last vs"
proof (induction vs arbitrary: f u)
  case Nil
  then show ?case by simp
next
  case (Cons v vs)
  obtain f' u' where tv: "takeValue v f u = (f', u')" by (cases "takeValue v f u")
  show ?case
  proof (cases "vs = []")
    case True
    then show ?thesis using tv takeValue_Passed [of v f u] by simp
  next
    case False
    then show ?thesis using Cons.IH [of f' u'] tv by simp
  qed
qed

lemma sint_in_range:
  "- (2 ^ 63) \<le> i \<Longrightarrow> i < 2 ^ 63 \<Longrightarrow> sint (word_of_int i :: 64 word) = i"
  by (simp add: sint_sbintrunc' signed_take_bit_int_eq_self)

lemma net_replicate: "net (replicate n True) = int n"
  by (induction n) (simp_all add: net_def)

lemma addOptArg_fields:
  "OptArgs (fst (addOptArg a opt u)) = OptArgs opt @ [a]"
  "OptArg (fst (addOptArg a opt u)) = a"
  "Passed (fst (addOptArg a opt u))"
  "takesArg (fst (addOptArg a opt u)) = takesArg opt"
  by (simp_all add: addOptArg_def Let_def)

lemma addOptArg_takesArg: "takesArg (fst (addOptArg a opt u)) = takesArg opt"
  by (simp add: addOptArg_def Let_def)

lemma addOptArgs_OptArgs:
  "OptArgs (fst (addOptArgs as opt u)) = OptArgs opt @ as"
proof (induction as arbitrary: opt u)
  case Nil
  show ?case by simp
next
  case (Cons a as)
  obtain o' u' where st: "addOptArg a opt u = (o', u')" by (cases "addOptArg a opt u")
  have "OptArgs o' = OptArgs opt @ [a]"
    using addOptArg_fields(1) [of a opt u] st by simp
  then show ?case using Cons.IH [of o' u'] st by simp
qed

lemma addOptArgs_last:
  "as \<noteq> [] \<Longrightarrow> OptArg (fst (addOptArgs as opt u)) = last as \<and> Passed (fst (addOptArgs as opt u))"
proof (induction as arbitrary: opt u)
  case Nil
  then show ?case by simp
next
  case (Cons a as)
  obtain o' u' where st: "addOptArg a opt u = (o', u')" by (cases "addOptArg a opt u")
  show ?case
  proof (cases "as = []")
    case True
    then show ?thesis using st addOptArg_fields(2,3) [of a opt u] by simp
  next
    case False
    then show ?thesis using Cons.IH [of o' u'] st by simp
  qed
qed

text \<open>
  The run \<open>-f a -f b\<close> of the specification, through the parser.
\<close>

lemma Option_history_parse:
  "ArgParse [''prog'', ''-f'', ''a'', ''-f'', ''b''] (demoWorld ()) =
     Done \<lparr>world = (demoWorld ())
             \<lparr>heap := [FlagCell (newFlagObj CHR ''v'' ''verbose'' ''Increase verbosity''),
                       OptionCell ((newOptionObj CHR ''f'' ''file'' ''Input file'')
                          \<lparr>Passed := True, OptArg := ''b'', OptArgs := [''a'', ''b'']\<rparr>)]\<rparr>,
           rest = [], expect_optarg = False, waiting_opt = Some 1\<rparr> None"
  by (simp add: demo_eval)

section \<open>Deliveries through pointers\<close>

lemma isFlag_iff: "isFlag w p \<longleftrightarrow> (\<exists>f. asFlag w p = Some f \<and> \<not> takesArg f)"
  by (simp add: isFlag_def split: option.splits)

lemma isOption_iff: "isOption w p \<longleftrightarrow> (\<exists>opt. asOption w p = Some opt \<and> takesArg opt)"
  by (simp add: isOption_def split: option.splits)

lemma asFlag_takesArgument: "asFlag w p = Some f \<Longrightarrow> takesArgument w p = Some (takesArg f)"
  by (auto simp: asFlag_def takesArgument_def split: if_splits cell.splits)

lemma asOption_takesArgument: "asOption w p = Some opt \<Longrightarrow> takesArgument w p = Some (takesArg opt)"
  by (auto simp: asOption_def takesArgument_def split: if_splits cell.splits)

lemma takeValueAt_Some:
  "asFlag w p = Some f \<Longrightarrow>
   takeValueAt p v w =
     Some (w\<lparr>heap := (heap w)[p := FlagCell (fst (takeValue v f (user w)))],
            user := snd (takeValue v f (user w))\<rparr>)"
  by (simp add: takeValueAt_def split: prod.splits)

lemma addOptArgAt_Some:
  "asOption w p = Some opt \<Longrightarrow>
   addOptArgAt p arg w =
     Some (w\<lparr>heap := (heap w)[p := OptionCell (fst (addOptArg arg opt (user w)))],
            user := snd (addOptArg arg opt (user w))\<rparr>)"
  by (simp add: addOptArgAt_def split: prod.splits)

lemma takeValueAt_asFlag:
  assumes "takeValueAt p v w = Some w'"
  shows "\<exists>f. asFlag w p = Some f \<and> asFlag w' p = Some (fst (takeValue v f (user w)))"
proof -
  from assms obtain f where f: "asFlag w p = Some f"
    by (auto simp: takeValueAt_def split: option.splits)
  then have "p < length (heap w)" by (auto simp: asFlag_def split: if_splits)
  then show ?thesis using assms f by (auto simp: takeValueAt_Some asFlag_def)
qed

lemma takeValueAt_frame:
  assumes "takeValueAt p v w = Some w'"
  shows "paramsByShort w' = paramsByShort w" "paramsByLong w' = paramsByLong w"
    "OnRestArg w' = OnRestArg w" "length (heap w') = length (heap w)"
    "asOption w' q = asOption w q" "takesArgument w' q = takesArgument w q"
    "q \<noteq> p \<Longrightarrow> asFlag w' q = asFlag w q"
    "isFlag w' q = isFlag w q" "isOption w' q = isOption w q"
proof -
  from assms obtain f where f: "asFlag w p = Some f"
    by (auto simp: takeValueAt_def split: option.splits)
  then have lt: "p < length (heap w)" and c: "heap w ! p = FlagCell f"
    by (auto simp: asFlag_def split: if_splits cell.splits)
  have w': "w' = w\<lparr>heap := (heap w)[p := FlagCell (fst (takeValue v f (user w)))],
            user := snd (takeValue v f (user w))\<rparr>"
    using assms takeValueAt_Some [OF f, of v] by simp
  show "paramsByShort w' = paramsByShort w" "paramsByLong w' = paramsByLong w"
    "OnRestArg w' = OnRestArg w" "length (heap w') = length (heap w)"
    by (simp_all add: w')
  show o: "asOption w' q = asOption w q"
    using lt c by (cases "q = p") (simp_all add: w' asOption_def)
  show t: "takesArgument w' q = takesArgument w q"
    using lt c by (cases "q = p") (simp_all add: w' takesArgument_def takeValue_takesArg)
  show "q \<noteq> p \<Longrightarrow> asFlag w' q = asFlag w q"
    by (simp add: w' asFlag_def)
  show "isFlag w' q = isFlag w q"
    using lt c by (cases "q = p") (simp_all add: w' isFlag_def asFlag_def takeValue_takesArg)
  show "isOption w' q = isOption w q"
    by (simp add: isOption_def o)
qed

lemma addOptArgAt_frame:
  assumes "addOptArgAt p a w = Some w'"
  shows "paramsByShort w' = paramsByShort w" "paramsByLong w' = paramsByLong w"
    "OnRestArg w' = OnRestArg w"
    "isFlag w' q = isFlag w q" "isOption w' q = isOption w q"
proof -
  from assms obtain opt where o: "asOption w p = Some opt"
    by (auto simp: addOptArgAt_def split: option.splits)
  then have lt: "p < length (heap w)" and c: "heap w ! p = OptionCell opt"
    by (auto simp: asOption_def split: if_splits cell.splits)
  have w': "w' = w\<lparr>heap := (heap w)[p := OptionCell (fst (addOptArg a opt (user w)))],
            user := snd (addOptArg a opt (user w))\<rparr>"
    using assms addOptArgAt_Some [OF o, of a] by simp
  show "paramsByShort w' = paramsByShort w" "paramsByLong w' = paramsByLong w"
    "OnRestArg w' = OnRestArg w"
    by (simp_all add: w')
  show "isFlag w' q = isFlag w q"
    using lt c by (cases "q = p") (simp_all add: w' isFlag_def asFlag_def)
  show "isOption w' q = isOption w q"
    using lt c by (cases "q = p") (simp_all add: w' isOption_def asOption_def addOptArg_takesArg)
qed

lemma takeValueAt_sets_Passed:
  assumes "takeValueAt p v w = Some w'"
  shows "\<exists>f'. asFlag w' p = Some f' \<and> Passed f' = v"
proof -
  from takeValueAt_asFlag [OF assms] obtain f
    where "asFlag w' p = Some (fst (takeValue v f (user w)))" by blast
  moreover have "Passed (fst (takeValue v f (user w))) = v" by (rule takeValue_Passed)
  ultimately show ?thesis by blast
qed

lemma takeValueAt_keeps_Passed:
  assumes "takeValueAt q v w = Some w'" "asFlag w p = Some f" "Passed f = v"
  shows "\<exists>f'. asFlag w' p = Some f' \<and> Passed f' = v"
proof (cases "q = p")
  case True
  then show ?thesis using takeValueAt_sets_Passed [of p v w w'] assms(1) by simp
next
  case False
  have "asFlag w' p = asFlag w p" using takeValueAt_frame(7) [OF assms(1), of p] False by simp
  then show ?thesis using assms(2,3) by simp
qed

lemma shortIsFlagD:
  assumes "shortIsFlag w c"
  obtains p f where "paramsByShort w c = Some p" "asFlag w p = Some f" "\<not> takesArg f"
    "takesArgument w p = Some False"
  using assms asFlag_takesArgument
  by (fastforce simp: shortIsFlag_def isFlag_iff split: option.splits)

lemma shortIsOptionD:
  assumes "shortIsOption w c"
  obtains p opt where "paramsByShort w c = Some p" "asOption w p = Some opt" "takesArg opt"
    "takesArgument w p = Some True"
  using assms asOption_takesArgument
  by (fastforce simp: shortIsOption_def isOption_iff split: option.splits)

lemma takeValueAt_short:
  assumes "takeValueAt p v w = Some w'"
  shows "shortIsFlag w' c = shortIsFlag w c" "shortIsOption w' c = shortIsOption w c"
  using takeValueAt_frame [OF assms]
  by (simp_all add: shortIsFlag_def shortIsOption_def split: option.splits)

lemma not_flag_takeValueAt:
  assumes "paramsByShort w c = Some p" "\<not> shortIsFlag w c" "takesArgument w p = Some False"
  shows "takeValueAt p v w = None"
proof (cases "asFlag w p")
  case None
  then show ?thesis by (simp add: takeValueAt_def)
next
  case (Some f)
  then have "\<not> takesArg f" using asFlag_takesArgument [OF Some] assms(3) by simp
  then have "shortIsFlag w c" using assms(1) Some by (simp add: shortIsFlag_def isFlag_def)
  then show ?thesis using assms(2) by simp
qed

lemma isFlag_takeValueAt:
  assumes "isFlag w p"
  shows "takesArgument w p = Some False \<and> (\<exists>w'. takeValueAt p v w = Some w')"
proof -
  from assms obtain f where f: "asFlag w p = Some f" "\<not> takesArg f" by (auto simp: isFlag_iff)
  show ?thesis using asFlag_takesArgument [OF f(1)] f(2) takeValueAt_Some [OF f(1), of v] by simp
qed

lemma isOption_addOptArgAt:
  assumes "isOption w p"
  shows "takesArgument w p = Some True \<and> asOption w p \<noteq> None \<and> (\<exists>w'. addOptArgAt p a w = Some w')"
proof -
  from assms obtain opt where f: "asOption w p = Some opt" "takesArg opt" by (auto simp: isOption_iff)
  show ?thesis using asOption_takesArgument [OF f(1)] f addOptArgAt_Some [OF f(1), of a] by simp
qed

text \<open>
  Delivering to the Flags that a string of characters names leaves the registry, the
  kinds of all objects and every Option as they are.
\<close>

lemma deliverEach_frame:
  assumes "deliverEach v cs w = Some w'"
  shows "paramsByShort w' = paramsByShort w \<and> paramsByLong w' = paramsByLong w
     \<and> OnRestArg w' = OnRestArg w \<and> length (heap w') = length (heap w)
     \<and> (\<forall>q. asOption w' q = asOption w q) \<and> (\<forall>q. takesArgument w' q = takesArgument w q)
     \<and> (\<forall>q. isFlag w' q = isFlag w q) \<and> (\<forall>q. isOption w' q = isOption w q)"
  using assms
proof (induction cs arbitrary: w)
  case Nil
  then show ?case by simp
next
  case (Cons c cs)
  from Cons.prems obtain p w1 where p: "paramsByShort w c = Some p"
    and w1: "takeValueAt p v w = Some w1" and r: "deliverEach v cs w1 = Some w'"
    by (auto split: option.splits)
  show ?case using Cons.IH [OF r] takeValueAt_frame [OF w1] by simp
qed

lemma deliverEach_short:
  assumes "deliverEach v cs w = Some w'"
  shows "shortIsFlag w' c = shortIsFlag w c" "shortIsOption w' c = shortIsOption w c"
  using deliverEach_frame [OF assms]
  by (simp_all add: shortIsFlag_def shortIsOption_def split: option.splits)

lemma deliverEach_append:
  "deliverEach v (xs @ ys) w =
     (case deliverEach v xs w of None \<Rightarrow> None | Some w' \<Rightarrow> deliverEach v ys w')"
  by (induction xs arbitrary: w) (simp_all split: option.splits)

lemma deliverEach_keeps_Passed:
  assumes "deliverEach v cs w = Some w'" "asFlag w p = Some f" "Passed f = v"
  shows "\<exists>f'. asFlag w' p = Some f' \<and> Passed f' = v"
  using assms
proof (induction cs arbitrary: w f)
  case Nil
  then show ?case by simp
next
  case (Cons c cs)
  from Cons.prems(1) obtain q w1 where w1: "takeValueAt q v w = Some w1"
    and r: "deliverEach v cs w1 = Some w'"
    by (auto split: option.splits)
  from takeValueAt_keeps_Passed [OF w1 Cons.prems(2,3)] obtain f1
    where "asFlag w1 p = Some f1" "Passed f1 = v" by blast
  from Cons.IH [OF r this] show ?case .
qed

lemma deliverEach_Passed:
  assumes "deliverEach v cs w = Some w'" "c \<in> set cs" "paramsByShort w c = Some p"
  shows "\<exists>f'. asFlag w' p = Some f' \<and> Passed f' = v"
  using assms
proof (induction cs arbitrary: w)
  case Nil
  then show ?case by simp
next
  case (Cons x cs)
  from Cons.prems(1) obtain q w1 where q: "paramsByShort w x = Some q"
    and w1: "takeValueAt q v w = Some w1" and r: "deliverEach v cs w1 = Some w'"
    by (auto split: option.splits)
  show ?case
  proof (cases "c = x")
    case True
    then have "q = p" using q Cons.prems(3) by simp
    then obtain f1 where "asFlag w1 p = Some f1" "Passed f1 = v"
      using takeValueAt_sets_Passed [of p v w w1] w1 by blast
    from deliverEach_keeps_Passed [OF r this] show ?thesis .
  next
    case False
    then have "c \<in> set cs" using Cons.prems(2) by simp
    moreover have "paramsByShort w1 c = Some p"
      using takeValueAt_frame(1) [OF w1] Cons.prems(3) by simp
    ultimately show ?thesis using Cons.IH [OF r] by blast
  qed
qed

section \<open>Positional arguments\<close>

lemma addRest_eq:
  "addRest w r arg dash =
     (r @ fst (keepRest (OnRestArg w) dash [arg] (user w)),
      w\<lparr>user := snd (keepRest (OnRestArg w) dash [arg] (user w))\<rparr>)"
  by (simp add: addRest_def split: option.splits prod.splits)

lemma restArg_eq:
  "restArg fr arg dash =
     fr\<lparr>world := (world fr)\<lparr>user := snd (keepRest (OnRestArg (world fr)) dash [arg] (user (world fr)))\<rparr>,
        rest := rest fr @ fst (keepRest (OnRestArg (world fr)) dash [arg] (user (world fr)))\<rparr>"
  by (simp add: restArg_def addRest_eq)

lemma restArg_expect: "expect_optarg (restArg fr a d) = expect_optarg fr"
  by (simp add: restArg_eq)

lemma keepRest_Cons:
  "keepRest cb dash (a # as) u =
     (fst (keepRest cb dash [a] u) @ fst (keepRest cb dash as (snd (keepRest cb dash [a] u))),
      snd (keepRest cb dash as (snd (keepRest cb dash [a] u))))"
  by (cases cb) (simp_all split: prod.splits)

lemma fold_restArg:
  "fold (\<lambda>a f. restArg f a dash) args fr =
     fr\<lparr>world := (world fr)\<lparr>user := snd (keepRest (OnRestArg (world fr)) dash args (user (world fr)))\<rparr>,
        rest := rest fr @ fst (keepRest (OnRestArg (world fr)) dash args (user (world fr)))\<rparr>"
proof (induction args arbitrary: fr)
  case Nil
  show ?case by simp
next
  case (Cons a args)
  define fr1 where "fr1 = restArg fr a dash"
  have fr1: "fr1 = fr\<lparr>world := (world fr)\<lparr>user := snd (keepRest (OnRestArg (world fr)) dash [a] (user (world fr)))\<rparr>,
        rest := rest fr @ fst (keepRest (OnRestArg (world fr)) dash [a] (user (world fr)))\<rparr>"
    unfolding fr1_def by (rule restArg_eq)
  have step: "fold (\<lambda>a f. restArg f a dash) (a # args) fr = fold (\<lambda>a f. restArg f a dash) args fr1"
    by (simp add: fr1_def)
  have ih: "fold (\<lambda>a f. restArg f a dash) args fr1 =
     fr1\<lparr>world := (world fr1)\<lparr>user := snd (keepRest (OnRestArg (world fr1)) dash args (user (world fr1)))\<rparr>,
        rest := rest fr1 @ fst (keepRest (OnRestArg (world fr1)) dash args (user (world fr1)))\<rparr>"
    by (rule Cons.IH)
  show ?case
    unfolding step ih keepRest_Cons [of _ dash a args] by (simp add: fr1)
qed

lemma keepRest_None:
  "keepRest None dash args u = (map (\<lambda>a. \<lparr>Argument = a, AfterDashes = dash\<rparr>) args, u)"
  by (induction args) simp_all

section \<open>The shapes of tokens\<close>

text \<open>
  A statement below about a token of a given shape is about a round of the main loop
  that reads the token while no option awaits a value.  The rounds in which an option
  awaits its value, and the tokens after the terminator, which the main loop never
  reads, have statements of their own.
\<close>

lemma body_pending:
  assumes "expect_optarg fr" "waiting_opt fr = Some p" "asOption (world fr) p = Some opt"
  shows "body fr arg args =
     Continue (fr\<lparr>world := (world fr)\<lparr>heap := (heap (world fr))[p := OptionCell (fst (addOptArg arg opt (user (world fr))))],
            user := snd (addOptArg arg opt (user (world fr)))\<rparr>, expect_optarg := False\<rparr>)"
  using assms by (simp add: body_def addOptArgAt_Some)

lemma body_terminator:
  assumes "\<not> expect_optarg fr"
  shows "body fr ''--'' args = Return (fold (\<lambda>a f. restArg f a True) args fr) None"
  using assms by (simp add: body_def)

lemma body_positional:
  assumes "\<not> expect_optarg fr" "positional arg"
  shows "body fr arg args = Continue (restArg fr arg False)"
proof -
  have "arg \<noteq> ''--''" using assms(2) by (auto simp: positional_def)
  then show ?thesis using assms by (auto simp: body_def positional_def)
qed

text \<open>
  The loop body as one chain of tests on the token.
\<close>

lemma body_cases:
  "body fr arg args =
     (if expect_optarg fr then body fr arg []
      else if arg = [] then Continue fr
      else if arg = ''--'' then Return (fold (\<lambda>a f. restArg f a True) args fr) None
      else if positional arg then Continue (restArg fr arg False)
      else if length arg = 2 \<and> arg ! 0 = CHR ''-'' then shortOpt fr (arg ! 1)
      else if length arg = 2 then negShort fr (arg ! 1)
      else if arg ! 0 = CHR ''+'' then negClump fr arg 1
      else if arg ! 1 \<noteq> CHR ''-'' then clump fr arg 1
      else if CHR ''='' \<notin> set arg then longOpt fr (drop 2 arg)
      else longOptArg fr (drop 2 (takeWhile (\<lambda>b. b \<noteq> CHR ''='') arg))
             (drop (length (takeWhile (\<lambda>b. b \<noteq> CHR ''='') arg) + 1) arg))"
proof (cases "expect_optarg fr")
  case True
  then show ?thesis by (simp add: body_def)
next
  case False
  consider "length arg = 0" | "length arg = 1" | "length arg = 2" | "3 \<le> length arg"
    by linarith
  then show ?thesis
  proof cases
    case 1
    then show ?thesis using False by (simp add: body_def)
  next
    case 2
    then have "arg \<noteq> ''--''" by auto
    then show ?thesis using False 2 by (auto simp: body_def positional_def)
  next
    case 3
    then obtain a b where ab: "arg = [a, b]"
      by (cases arg; cases "tl arg") auto
    show ?thesis using False by (simp add: ab body_def positional_def)
  next
    case 4
    then have ne: "arg \<noteq> ''--''" "arg \<noteq> []" "length arg \<noteq> 1" "length arg \<noteq> 2" "length arg \<noteq> 0"
      by auto
    show ?thesis
    proof (cases "arg ! 0 = CHR ''-''")
      case True
      have tw: "take (length (takeWhile (\<lambda>b. b \<noteq> CHR ''='') arg)) arg = takeWhile (\<lambda>b. b \<noteq> CHR ''='') arg"
        by (rule takeWhile_eq_take [symmetric])
      show ?thesis
        using False ne 4 True
        by (simp add: body_def positional_def IndexByte_def Let_def tw)
    next
      case nd: False
      show ?thesis
        using False ne nd 4 by (simp add: body_def positional_def)
    qed
  qed
qed

lemma body_expect_no_Return: "expect_optarg fr \<Longrightarrow> body fr arg args \<noteq> Return fr' err"
  by (simp add: body_def split: option.splits)

lemma body_expect_Continue:
  "expect_optarg fr \<Longrightarrow> body fr arg args = Continue fr' \<Longrightarrow> \<not> expect_optarg fr'"
  by (auto simp: body_def split: option.splits)

lemma body_args:
  assumes "expect_optarg fr \<or> arg \<noteq> ''--''"
  shows "body fr arg args = body fr arg args'"
proof (cases "expect_optarg fr")
  case True
  then show ?thesis by (simp add: body_def)
next
  case False
  then have "arg \<noteq> ''--''" using assms by simp
  then show ?thesis
    by (subst body_cases, subst (2) body_cases) simp
qed

lemma body_Continue_args:
  assumes "body fr arg args = Continue fr'"
  shows "body fr arg args' = Continue fr'"
proof -
  have "expect_optarg fr \<or> arg \<noteq> ''--''"
    using assms body_terminator [of fr args] by (cases "expect_optarg fr") auto
  from body_args [OF this, of args' args] show ?thesis using assms by simp
qed

lemma body_error_args:
  assumes "body fr arg args = Return fr' (Some e)"
  shows "body fr arg args' = Return fr' (Some e)"
proof -
  have "expect_optarg fr \<or> arg \<noteq> ''--''"
    using assms body_terminator [of fr args] by (cases "expect_optarg fr") auto
  from body_args [OF this, of args' args] show ?thesis using assms by simp
qed

text \<open>
  The loop over a prefix of the input.
\<close>

lemma steps_args:
  "steps fr pre post = Some fr1 \<Longrightarrow> steps fr pre post' = Some fr1"
proof (induction pre arbitrary: fr)
  case Nil
  then show ?case by simp
next
  case (Cons a pre)
  from Cons.prems obtain fr2 where b: "body fr a (pre @ post) = Continue fr2"
    and s: "steps fr2 pre post = Some fr1"
    by (auto split: outcome.splits)
  from body_Continue_args [OF b] have "body fr a (pre @ post') = Continue fr2" .
  then show ?case using Cons.IH [OF s] by simp
qed

lemma loop_steps:
  "steps fr pre post = Some fr1 \<Longrightarrow> loop fr (pre @ post) = loop fr1 post"
proof (induction pre arbitrary: fr)
  case Nil
  then show ?case by simp
next
  case (Cons a pre)
  from Cons.prems obtain fr2 where b: "body fr a (pre @ post) = Continue fr2"
    and s: "steps fr2 pre post = Some fr1"
    by (auto split: outcome.splits)
  show ?case using b Cons.IH [OF s] by simp
qed

lemma loop_error_decomp:
  assumes "loop fr ts = Done fr' (Some e)"
  shows "\<exists>pre t post fr1. ts = pre @ t # post \<and> steps fr pre (t # post) = Some fr1
     \<and> body fr1 t post = Return fr' (Some e)"
  using assms
proof (induction ts arbitrary: fr)
  case Nil
  then show ?case by simp
next
  case (Cons a ts)
  show ?case
  proof (cases "body fr a ts")
    case (Continue fr2)
    then have "loop fr2 ts = Done fr' (Some e)" using Cons.prems by simp
    from Cons.IH [OF this] obtain pre t post fr1
      where d: "ts = pre @ t # post" "steps fr2 pre (t # post) = Some fr1"
        "body fr1 t post = Return fr' (Some e)"
      by blast
    have "steps fr (a # pre) (t # post) = Some fr1" using Continue d(1,2) by simp
    then show ?thesis using d(1,3) by (metis append_Cons)
  next
    case (Return fr2 err)
    then have "fr2 = fr'" "err = Some e" using Cons.prems by simp_all
    then have "a # ts = [] @ a # ts \<and> steps fr [] (a # ts) = Some fr
       \<and> body fr a ts = Return fr' (Some e)"
      using Return by simp
    then show ?thesis by blast
  next
    case Panic
    then show ?thesis using Cons.prems by simp
  qed
qed

text \<open>
  Claim C10: with \<open>OnRestArg\<close> nil, \<open>addRest\<close> appends the entry; with \<open>OnRestArg\<close>
  set, it calls it once with the argument and its after-terminator tag, and appends the
  entry only if the call returns true.  Every positional token before the terminator goes
  through \<open>addRest\<close> once with the tag false, and every token after the terminator once
  with the tag true, in order.
\<close>

theorem rest_callback:
  "(OnRestArg (w :: 'u world) = None \<longrightarrow>
      addRest w r arg dash = (r @ [\<lparr>Argument = arg, AfterDashes = dash\<rparr>], w))
   \<and> (OnRestArg w = Some g \<longrightarrow>
      addRest w r arg dash =
        (if fst (g arg dash (user w)) then r @ [\<lparr>Argument = arg, AfterDashes = dash\<rparr>] else r,
         w\<lparr>user := snd (g arg dash (user w))\<rparr>))
   \<and> (\<not> expect_optarg (fr :: 'u frame) \<and> positional arg \<longrightarrow>
      loop fr (arg # args) =
        loop (fr\<lparr>world := snd (addRest (world fr) (rest fr) arg False),
                 rest := fst (addRest (world fr) (rest fr) arg False)\<rparr>) args)
   \<and> (\<not> expect_optarg fr \<longrightarrow>
      loop fr (''--'' # args) =
        Done (fold (\<lambda>a f. f\<lparr>world := snd (addRest (world f) (rest f) a True),
                            rest := fst (addRest (world f) (rest f) a True)\<rparr>) args fr) None)"
proof -
  have r: "restArg f a d = f\<lparr>world := snd (addRest (world f) (rest f) a d),
                            rest := fst (addRest (world f) (rest f) a d)\<rparr>" for f :: "'u frame" and a d
    by (simp add: restArg_def split: prod.splits)
  have 1: "OnRestArg w = None \<longrightarrow>
      addRest w r arg dash = (r @ [\<lparr>Argument = arg, AfterDashes = dash\<rparr>], w)"
    by (simp add: addRest_def)
  have 2: "OnRestArg w = Some g \<longrightarrow>
      addRest w r arg dash =
        (if fst (g arg dash (user w)) then r @ [\<lparr>Argument = arg, AfterDashes = dash\<rparr>] else r,
         w\<lparr>user := snd (g arg dash (user w))\<rparr>)"
    by (simp add: addRest_def split: prod.splits)
  have 3: "\<not> expect_optarg fr \<and> positional arg \<longrightarrow>
      loop fr (arg # args) =
        loop (fr\<lparr>world := snd (addRest (world fr) (rest fr) arg False),
                 rest := fst (addRest (world fr) (rest fr) arg False)\<rparr>) args"
    using body_positional [of fr arg args] r [of fr arg False] by simp
  have 4: "\<not> expect_optarg fr \<longrightarrow>
      loop fr (''--'' # args) =
        Done (fold (\<lambda>a f. f\<lparr>world := snd (addRest (world f) (rest f) a True),
                            rest := fst (addRest (world f) (rest f) a True)\<rparr>) args fr) None"
    using body_terminator [of fr args] by (simp add: r)
  show ?thesis using 1 2 3 4 by blast
qed

theorem rest_callback_witness:
  "loop (initFrame ((demoWorld [])\<lparr>OnRestArg := Some (\<lambda>arg afterDash u. (arg \<noteq> ''skip'', u @ [(arg, afterDash)]))\<rparr>))
        [''keep'', ''skip'', ''--'', ''skip'', ''-v''] =
     Done \<lparr>world = (demoWorld [(''keep'', False), (''skip'', False), (''skip'', True), (''-v'', True)])
                     \<lparr>OnRestArg := Some (\<lambda>arg afterDash u. (arg \<noteq> ''skip'', u @ [(arg, afterDash)]))\<rparr>,
           rest = [\<lparr>Argument = ''keep'', AfterDashes = False\<rparr>, \<lparr>Argument = ''-v'', AfterDashes = True\<rparr>],
           expect_optarg = False, waiting_opt = None\<rparr> None
   \<and> loop (initFrame (demoWorld ())) [''keep'', ''skip''] =
     Done ((initFrame (demoWorld ()))
             \<lparr>rest := [\<lparr>Argument = ''keep'', AfterDashes = False\<rparr>,
                       \<lparr>Argument = ''skip'', AfterDashes = False\<rparr>]\<rparr>) None"
proof -
  let ?g = "\<lambda>arg afterDash u. (arg \<noteq> ''skip'', u @ [(arg :: string, afterDash :: bool)])"
  let ?w = "(demoWorld [])\<lparr>OnRestArg := Some ?g\<rparr>"
  have p: "positional ''keep''" "positional ''skip''" by (simp_all add: positional_def)
  have e: "\<not> expect_optarg (initFrame ?w)" "\<not> expect_optarg (initFrame (demoWorld ()))"
    by (simp_all add: initFrame_def)
  have 1: "loop (initFrame ?w) [''keep'', ''skip'', ''--'', ''skip'', ''-v''] =
     Done \<lparr>world = (demoWorld [(''keep'', False), (''skip'', False), (''skip'', True), (''-v'', True)])
                     \<lparr>OnRestArg := Some ?g\<rparr>,
           rest = [\<lparr>Argument = ''keep'', AfterDashes = False\<rparr>, \<lparr>Argument = ''-v'', AfterDashes = True\<rparr>],
           expect_optarg = False, waiting_opt = None\<rparr> None"
    using rest_callback [where w = ?w and r = "[]" and g = ?g and arg = "''keep''" and dash = False
        and fr = "initFrame ?w" and args = "[''skip'', ''--'', ''skip'', ''-v'']"]
    by (simp add: demo_eval)
  have 2: "loop (initFrame (demoWorld ())) [''keep'', ''skip''] =
     Done ((initFrame (demoWorld ()))
             \<lparr>rest := [\<lparr>Argument = ''keep'', AfterDashes = False\<rparr>,
                       \<lparr>Argument = ''skip'', AfterDashes = False\<rparr>]\<rparr>) None"
    using rest_callback [where w = "demoWorld ()" and r = "[]" and arg = "''keep''" and dash = False
        and fr = "initFrame (demoWorld ())" and args = "[''skip'']"]
    by (simp add: demo_eval)
  show ?thesis using 1 2 by simp
qed

lemma loop_terminator:
  assumes "\<not> expect_optarg fr"
  shows "loop fr (''--'' # args) =
     Done (fr\<lparr>world := (world fr)\<lparr>user := snd (keepRest (OnRestArg (world fr)) True args (user (world fr)))\<rparr>,
              rest := rest fr @ fst (keepRest (OnRestArg (world fr)) True args (user (world fr)))\<rparr>) None"
  using body_terminator [OF assms, of args] by (simp add: fold_restArg)

text \<open>
  Claim C2, as amended: when the token \<open>--\<close> is read while no option awaits a value,
  every remaining token, whatever its shape, is offered to \<open>addRest\<close> with
  \<open>AfterDashes = true\<close>, in its original order, and the parse returns without an
  error.  With \<open>OnRestArg\<close> nil every one of these tokens is appended as a Rest entry;
  with \<open>OnRestArg\<close> set, those for which it returns true are.  The registry and the
  heap of Flags and Options are the same before and after, so none of these tokens is
  looked up or delivered.  (As stated, for every input, the claim fails: a callback that
  returns false keeps the tokens out of the result.)
\<close>

theorem terminator_rest:
  assumes "steps (initFrame w) pre (''--'' # args) = Some fr" and "\<not> expect_optarg fr"
  shows "ArgParse (prog # pre @ ''--'' # args) w =
       Done (fr\<lparr>world := (world fr)\<lparr>user := snd (keepRest (OnRestArg (world fr)) True args (user (world fr)))\<rparr>,
                rest := rest fr @ fst (keepRest (OnRestArg (world fr)) True args (user (world fr)))\<rparr>) None
     \<and> (OnRestArg (world fr) = None \<longrightarrow>
           ArgParse (prog # pre @ ''--'' # args) w =
             Done (fr\<lparr>rest := rest fr @ map (\<lambda>a. \<lparr>Argument = a, AfterDashes = True\<rparr>) args\<rparr>) None)"
proof -
  have "ArgParse (prog # pre @ ''--'' # args) w = loop fr (''--'' # args)"
    using loop_steps [OF assms(1)] by (simp add: ArgParse_def)
  then show ?thesis
    using loop_terminator [OF assms(2), of args] by (simp add: keepRest_None)
qed

theorem terminator_rest_witness:
  "ArgParse [''prog'', ''-v'', ''x'', ''--'', ''-v'', ''--file=x'', ''--'', [], ''+f''] (demoWorld ()) =
     Done \<lparr>world = (demoWorld ())
             \<lparr>heap := [FlagCell ((newFlagObj CHR ''v'' ''verbose'' ''Increase verbosity'')
                                   \<lparr>Passed := True, Count := 1\<rparr>),
                       OptionCell (newOptionObj CHR ''f'' ''file'' ''Input file'')]\<rparr>,
           rest = [\<lparr>Argument = ''x'', AfterDashes = False\<rparr>,
                   \<lparr>Argument = ''-v'', AfterDashes = True\<rparr>,
                   \<lparr>Argument = ''--file=x'', AfterDashes = True\<rparr>,
                   \<lparr>Argument = ''--'', AfterDashes = True\<rparr>,
                   \<lparr>Argument = [], AfterDashes = True\<rparr>,
                   \<lparr>Argument = ''+f'', AfterDashes = True\<rparr>],
           expect_optarg = False, waiting_opt = None\<rparr> None"
proof -
  let ?fr = "\<lparr>world = (demoWorld ())
             \<lparr>heap := [FlagCell ((newFlagObj CHR ''v'' ''verbose'' ''Increase verbosity'')
                                   \<lparr>Passed := True, Count := 1\<rparr>),
                       OptionCell (newOptionObj CHR ''f'' ''file'' ''Input file'')]\<rparr>,
           rest = [\<lparr>Argument = ''x'', AfterDashes = False\<rparr>],
           expect_optarg = False, waiting_opt = None\<rparr> :: unit frame"
  have h1: "steps (initFrame (demoWorld ())) [''-v'', ''x'']
              (''--'' # [''-v'', ''--file=x'', ''--'', [], ''+f'']) = Some ?fr"
    by (simp add: demo_eval)
  have h2: "\<not> expect_optarg ?fr" by simp
  from terminator_rest [where prog = "''prog''", OF h1 h2]
  show ?thesis by (simp add: demoWorld_eq)
qed

theorem terminator_rest_counterexample:
  "ArgParse [''prog'', ''--'', ''x'']
     ((emptyWorld ())\<lparr>OnRestArg := Some (\<lambda>arg afterDash u. (False, u))\<rparr>) =
   Done \<lparr>world = (emptyWorld ())\<lparr>OnRestArg := Some (\<lambda>arg afterDash u. (False, u))\<rparr>,
         rest = [], expect_optarg = False, waiting_opt = None\<rparr> None"
  by (simp add: ArgParse_def initFrame_def body_def restArg_def addRest_def emptyWorld_def)

section \<open>Negated tokens\<close>

lemma drop_eq_ConsD:
  assumes "drop j arg = c # cs"
  shows "j < length arg" "arg ! j = c" "drop (j + 1) arg = cs" "j < length arg - 1 \<longleftrightarrow> cs \<noteq> []"
proof -
  show lt: "j < length arg" using assms by (cases "j < length arg") simp_all
  have "drop j arg = arg ! j # drop (Suc j) arg" using lt by (simp add: Cons_nth_drop_Suc)
  then show "arg ! j = c" and d: "drop (j + 1) arg = cs" using assms by simp_all
  have "length cs = length arg - (j + 1)" using d by (metis length_drop)
  then show "j < length arg - 1 \<longleftrightarrow> cs \<noteq> []" using lt by (cases cs) auto
qed

lemma flag_prefix:
  "\<exists>pre post. cs = pre @ post \<and> (\<forall>c\<in>set pre. shortIsFlag w c)
     \<and> (post = [] \<or> \<not> shortIsFlag w (hd post))"
proof (intro exI conjI)
  show "cs = takeWhile (shortIsFlag w) cs @ dropWhile (shortIsFlag w) cs" by simp
  show "\<forall>c\<in>set (takeWhile (shortIsFlag w) cs). shortIsFlag w c"
    by (auto dest: set_takeWhileD)
  show "dropWhile (shortIsFlag w) cs = [] \<or> \<not> shortIsFlag w (hd (dropWhile (shortIsFlag w) cs))"
    using hd_dropWhile [of "shortIsFlag w" cs] by blast
qed

lemma negShort_flag:
  assumes "shortIsFlag (world fr) c"
  shows "\<exists>w'. deliverEach False [c] (world fr) = Some w' \<and> negShort fr c = Continue (fr\<lparr>world := w'\<rparr>)"
proof -
  from assms obtain p f where p: "paramsByShort (world fr) c = Some p" "asFlag (world fr) p = Some f"
    "takesArgument (world fr) p = Some False"
    by (rule shortIsFlagD)
  show ?thesis using p takeValueAt_Some [OF p(2)] by (simp add: negShort_def)
qed

lemma negShort_option:
  assumes "shortIsOption (world fr) c"
  shows "negShort fr c = Return fr (Some (errTriedToNegateOptArg c))"
proof -
  from assms obtain p where "paramsByShort (world fr) c = Some p" "takesArgument (world fr) p = Some True"
    by (rule shortIsOptionD)
  then show ?thesis by (simp add: negShort_def)
qed

lemma negShort_unknown:
  assumes "paramsByShort (world fr) c = None"
  shows "negShort fr c = Return fr (Some (errUnrecognizedShort c))"
  using assms by (simp add: negShort_def)

lemma negShort_not_flag:
  assumes "\<not> shortIsFlag (world fr) c"
  shows "negShort fr c = Panic \<or> (\<exists>e. negShort fr c = Return fr (Some e))"
proof (cases "paramsByShort (world fr) c")
  case None
  then show ?thesis by (simp add: negShort_def)
next
  case (Some p)
  show ?thesis
    using Some not_flag_takeValueAt [OF Some assms, of False]
    by (auto simp: negShort_def split: option.splits bool.splits)
qed

lemma negShort_Return: "negShort fr c = Return fr' err \<Longrightarrow> fr' = fr \<and> err \<noteq> None"
  by (auto simp: negShort_def split: option.splits bool.splits)

lemma negShort_Continue: "negShort fr c = Continue fr' \<Longrightarrow> expect_optarg fr' = expect_optarg fr"
  by (auto simp: negShort_def split: option.splits bool.splits)

text \<open>
  The negated clump over a prefix of flag characters, and at the first character that
  is not one.
\<close>

lemma negClump_prefix:
  assumes "drop j arg = pre @ post" "\<forall>c\<in>set pre. shortIsFlag (world fr) c"
  shows "\<exists>w'. deliverEach False pre (world fr) = Some w'
     \<and> negClump fr arg j = negClump (fr\<lparr>world := w'\<rparr>) arg (j + length pre)"
  using assms
proof (induction pre arbitrary: fr j)
  case Nil
  show ?case by simp
next
  case (Cons c pre)
  from Cons.prems(1) have d: "j < length arg" "arg ! j = c" "drop (j + 1) arg = pre @ post"
    using drop_eq_ConsD [of j arg c "pre @ post"] by simp_all
  from Cons.prems(2) have "shortIsFlag (world fr) c" by simp
  from negShort_flag [OF this] obtain w1
    where w1: "deliverEach False [c] (world fr) = Some w1" "negShort fr c = Continue (fr\<lparr>world := w1\<rparr>)"
    by blast
  have fl: "\<forall>x\<in>set pre. shortIsFlag (world (fr\<lparr>world := w1\<rparr>)) x"
    using Cons.prems(2) deliverEach_short(1) [OF w1(1)] by simp
  from Cons.IH [OF d(3) fl] obtain w'
    where w': "deliverEach False pre w1 = Some w'"
      "negClump (fr\<lparr>world := w1\<rparr>) arg (j + 1) = negClump (fr\<lparr>world := w'\<rparr>) arg (j + 1 + length pre)"
    by auto
  have "negClump fr arg j = negClump (fr\<lparr>world := w1\<rparr>) arg (j + 1)"
    using d w1(2) by (subst negClump.simps) simp
  moreover have "deliverEach False (c # pre) (world fr) = Some w'"
    using deliverEach_append [of False "[c]" pre "world fr"] w1(1) w' (1) by simp
  ultimately show ?case using w'(2) by simp
qed

lemma negClump_end: "length arg \<le> j \<Longrightarrow> negClump fr arg j = Continue fr"
  by (subst negClump.simps) simp

lemma negClump_stop:
  assumes "drop j arg = c # post" "negShort fr c = Return fr' err"
  shows "negClump fr arg j = Return fr' err"
  using drop_eq_ConsD [OF assms(1)] assms(2) by (subst negClump.simps) simp

lemma body_plus:
  assumes "\<not> expect_optarg fr" "cs \<noteq> []"
  shows "body fr (CHR ''+'' # cs) args = negClump fr (CHR ''+'' # cs) 1"
proof (cases cs)
  case Nil
  then show ?thesis using assms by simp
next
  case (Cons c cs')
  show ?thesis
  proof (cases cs')
    case Nil
    have "negClump fr [CHR ''+'', c] 1 = negShort fr c"
      by (subst negClump.simps) (simp add: negClump_end split: outcome.splits)
    then show ?thesis using assms Cons Nil by (simp add: body_def)
  next
    case (Cons d ds)
    then show ?thesis using assms \<open>cs = c # cs'\<close> by (simp add: body_def)
  qed
qed

lemma negClump_all_flags:
  assumes "\<forall>c\<in>set cs. shortIsFlag (world fr) c"
  shows "\<exists>w'. deliverEach False cs (world fr) = Some w'
     \<and> negClump fr (CHR ''+'' # cs) 1 = Continue (fr\<lparr>world := w'\<rparr>)"
proof -
  have "drop 1 (CHR ''+'' # cs) = cs @ []" by simp
  from negClump_prefix [OF this assms] obtain w'
    where "deliverEach False cs (world fr) = Some w'"
      "negClump fr (CHR ''+'' # cs) 1 = negClump (fr\<lparr>world := w'\<rparr>) (CHR ''+'' # cs) (1 + length cs)"
    by blast
  then show ?thesis by (simp add: negClump_end)
qed

lemma negClump_first_failure:
  assumes "\<forall>x\<in>set pre. shortIsFlag (world fr) x"
    and "negShort (fr\<lparr>world := w'\<rparr>) c = Return (fr\<lparr>world := w'\<rparr>) err"
    and "deliverEach False pre (world fr) = Some w'"
  shows "negClump fr (CHR ''+'' # pre @ c # post) 1 = Return (fr\<lparr>world := w'\<rparr>) err"
proof -
  let ?arg = "CHR ''+'' # pre @ c # post"
  have "drop 1 ?arg = pre @ c # post" by simp
  from negClump_prefix [OF this assms(1)] assms(3)
  have 1: "negClump fr ?arg 1 = negClump (fr\<lparr>world := w'\<rparr>) ?arg (1 + length pre)"
    by auto
  have d: "drop (1 + length pre) ?arg = c # post" by simp
  show ?thesis unfolding 1 by (rule negClump_stop [OF d assms(2)])
qed

lemma negClump_decomp:
  "\<exists>pre post w'. drop j arg = pre @ post \<and> deliverEach False pre (world fr) = Some w'
     \<and> negClump fr arg j = negClump (fr\<lparr>world := w'\<rparr>) arg (j + length pre)
     \<and> drop (j + length pre) arg = post
     \<and> (post = [] \<or> \<not> shortIsFlag w' (hd post))"
proof -
  from flag_prefix [of "drop j arg" "world fr"] obtain pre post
    where pp: "drop j arg = pre @ post" "\<forall>c\<in>set pre. shortIsFlag (world fr) c"
      "post = [] \<or> \<not> shortIsFlag (world fr) (hd post)"
    by blast
  from negClump_prefix [OF pp(1,2)] obtain w'
    where w': "deliverEach False pre (world fr) = Some w'"
      "negClump fr arg j = negClump (fr\<lparr>world := w'\<rparr>) arg (j + length pre)"
    by blast
  have "drop (j + length pre) arg = post"
    using pp(1) by (metis add.commute append_eq_conv_conj drop_drop)
  moreover have "post = [] \<or> \<not> shortIsFlag w' (hd post)"
    using pp(3) deliverEach_short(1) [OF w'(1)] by simp
  ultimately show ?thesis using pp(1) w' by blast
qed

lemma negClump_outcome:
  "negClump fr arg j = Panic
   \<or> (\<exists>pre post w'. drop j arg = pre @ post \<and> deliverEach False pre (world fr) = Some w'
        \<and> (negClump fr arg j = Continue (fr\<lparr>world := w'\<rparr>)
           \<or> (post \<noteq> [] \<and> (\<exists>e. negClump fr arg j = Return (fr\<lparr>world := w'\<rparr>) (Some e)))))"
proof -
  from negClump_decomp [of j arg fr] obtain pre post w'
    where d: "drop j arg = pre @ post" "deliverEach False pre (world fr) = Some w'"
      "negClump fr arg j = negClump (fr\<lparr>world := w'\<rparr>) arg (j + length pre)"
      "drop (j + length pre) arg = post" "post = [] \<or> \<not> shortIsFlag w' (hd post)"
    by blast
  show ?thesis
  proof (cases post)
    case Nil
    then have "length arg \<le> j + length pre" using d(4) by simp
    then have "negClump fr arg j = Continue (fr\<lparr>world := w'\<rparr>)" using d(3) by (simp add: negClump_end)
    then show ?thesis using d(1,2) by blast
  next
    case (Cons c post')
    then have nf: "\<not> shortIsFlag (world (fr\<lparr>world := w'\<rparr>)) c" using d(5) by simp
    have dd: "drop (j + length pre) arg = c # post'" using d(4) Cons by simp
    note e = drop_eq_ConsD [OF dd]
    from negShort_not_flag [OF nf] show ?thesis
    proof
      assume "negShort (fr\<lparr>world := w'\<rparr>) c = Panic"
      then have "negClump (fr\<lparr>world := w'\<rparr>) arg (j + length pre) = Panic"
        using e by (subst negClump.simps) simp
      then show ?thesis using d(3) by simp
    next
      assume "\<exists>e. negShort (fr\<lparr>world := w'\<rparr>) c = Return (fr\<lparr>world := w'\<rparr>) (Some e)"
      then obtain er where "negShort (fr\<lparr>world := w'\<rparr>) c = Return (fr\<lparr>world := w'\<rparr>) (Some er)"
        by blast
      from negClump_stop [OF dd this] have "negClump fr arg j = Return (fr\<lparr>world := w'\<rparr>) (Some er)"
        using d(3) by simp
      then show ?thesis using d(1,2) Cons by blast
    qed
  qed
qed

lemma negClump_Continue:
  assumes "negClump fr arg j = Continue fr'"
  shows "expect_optarg fr' = expect_optarg fr"
  using negClump_outcome [of fr arg j] assms by auto

lemma negClump_Return:
  assumes "negClump fr arg j = Return fr' err"
  shows "\<exists>pre post. drop j arg = pre @ post \<and> post \<noteq> []
     \<and> deliverEach False pre (world fr) = Some (world fr')
     \<and> fr' = fr\<lparr>world := world fr'\<rparr> \<and> err \<noteq> None"
proof -
  from negClump_outcome [of fr arg j] assms obtain pre post w' e
    where "drop j arg = pre @ post" "deliverEach False pre (world fr) = Some w'" "post \<noteq> []"
      "fr' = fr\<lparr>world := w'\<rparr>" "err = Some e"
    by auto
  then show ?thesis by (intro exI [of _ pre] exI [of _ post]) simp
qed

text \<open>
  Claim C8: a negation token \<open>+\<close> followed by one or more characters, read while no
  option awaits a value, is scanned from left to right.  Each character that resolves to
  a Flag delivers false to it.  At the first character that does not, the parse stops
  with the Flags before it delivered: with the error that names that character as a
  negated argument-taking Option when it resolves to an Option, and as an unrecognized
  short option when it is not registered.  The rest of the token and the tokens after it
  are not read.
\<close>

theorem negation_token:
  assumes "\<not> expect_optarg fr" and "\<forall>x\<in>set pre. shortIsFlag (world fr) x"
  shows "\<exists>w'. deliverEach False pre (world fr) = Some w'
     \<and> (\<forall>x\<in>set pre. \<forall>p. paramsByShort (world fr) x = Some p \<longrightarrow>
           (\<exists>f. asFlag w' p = Some f \<and> \<not> Passed f))
     \<and> (pre \<noteq> [] \<longrightarrow>
           loop fr ((CHR ''+'' # pre) # args) = loop (fr\<lparr>world := w'\<rparr>) args)
     \<and> (shortIsOption (world fr) c \<longrightarrow>
           loop fr ((CHR ''+'' # pre @ c # post) # args) =
             Done (fr\<lparr>world := w'\<rparr>) (Some (errTriedToNegateOptArg c)))
     \<and> (paramsByShort (world fr) c = None \<longrightarrow>
           loop fr ((CHR ''+'' # pre @ c # post) # args) =
             Done (fr\<lparr>world := w'\<rparr>) (Some (errUnrecognizedShort c)))"
proof -
  from negClump_all_flags [OF assms(2)] obtain w'
    where w': "deliverEach False pre (world fr) = Some w'"
      and fl: "negClump fr (CHR ''+'' # pre) 1 = Continue (fr\<lparr>world := w'\<rparr>)"
    by blast
  have b2: "body fr (CHR ''+'' # pre @ c # post) args = negClump fr (CHR ''+'' # pre @ c # post) 1"
    using body_plus [OF assms(1), of "pre @ c # post"] by simp
  have 1: "\<forall>x\<in>set pre. \<forall>p. paramsByShort (world fr) x = Some p \<longrightarrow>
           (\<exists>f. asFlag w' p = Some f \<and> \<not> Passed f)"
    using deliverEach_Passed [OF w'] by blast
  have 2: "loop fr ((CHR ''+'' # pre) # args) = loop (fr\<lparr>world := w'\<rparr>) args" if "pre \<noteq> []"
    using body_plus [OF assms(1) that] fl by simp
  have 3: "loop fr ((CHR ''+'' # pre @ c # post) # args) =
             Done (fr\<lparr>world := w'\<rparr>) (Some (errTriedToNegateOptArg c))"
    if "shortIsOption (world fr) c"
  proof -
    have "shortIsOption (world (fr\<lparr>world := w'\<rparr>)) c"
      using that deliverEach_short(2) [OF w'] by simp
    from negClump_first_failure [OF assms(2) negShort_option [OF this] w']
    show ?thesis using b2 by simp
  qed
  have 4: "loop fr ((CHR ''+'' # pre @ c # post) # args) =
             Done (fr\<lparr>world := w'\<rparr>) (Some (errUnrecognizedShort c))"
    if "paramsByShort (world fr) c = None"
  proof -
    have "paramsByShort (world (fr\<lparr>world := w'\<rparr>)) c = None"
      using that deliverEach_frame [OF w'] by simp
    from negClump_first_failure [OF assms(2) negShort_unknown [OF this] w']
    show ?thesis using b2 by simp
  qed
  show ?thesis
    using w' 1 2 3 4 by (intro exI [of _ w'] conjI impI) simp_all
qed

theorem negation_token_witness:
  "shortIsFlag (world (initFrame (demoWorld ()))) CHR ''v''
   \<and> shortIsOption (world (initFrame (demoWorld ()))) CHR ''f''
   \<and> paramsByShort (world (initFrame (demoWorld ()))) CHR ''z'' = None
   \<and> loop (initFrame (demoWorld ())) [''+vv''] =
     Done ((initFrame (demoWorld ()))
          \<lparr>world := (demoWorld ())
             \<lparr>heap := [FlagCell ((newFlagObj CHR ''v'' ''verbose'' ''Increase verbosity'')
                                   \<lparr>Passed := False, Count := - 2\<rparr>),
                       OptionCell (newOptionObj CHR ''f'' ''file'' ''Input file'')]\<rparr>\<rparr>) None
   \<and> loop (initFrame (demoWorld ())) [''+vvfv'', ''+v''] =
     Done ((initFrame (demoWorld ()))
          \<lparr>world := (demoWorld ())
             \<lparr>heap := [FlagCell ((newFlagObj CHR ''v'' ''verbose'' ''Increase verbosity'')
                                   \<lparr>Passed := False, Count := - 2\<rparr>),
                       OptionCell (newOptionObj CHR ''f'' ''file'' ''Input file'')]\<rparr>\<rparr>)
       (Some (errTriedToNegateOptArg CHR ''f''))
   \<and> loop (initFrame (demoWorld ())) [''+vvzv'', ''+v''] =
     Done ((initFrame (demoWorld ()))
          \<lparr>world := (demoWorld ())
             \<lparr>heap := [FlagCell ((newFlagObj CHR ''v'' ''verbose'' ''Increase verbosity'')
                                   \<lparr>Passed := False, Count := - 2\<rparr>),
                       OptionCell (newOptionObj CHR ''f'' ''file'' ''Input file'')]\<rparr>\<rparr>)
       (Some (errUnrecognizedShort CHR ''z''))"
proof -
  let ?fr = "initFrame (demoWorld ()) :: unit frame"
  let ?w' = "(demoWorld ())
             \<lparr>heap := [FlagCell ((newFlagObj CHR ''v'' ''verbose'' ''Increase verbosity'')
                                   \<lparr>Passed := False, Count := - 2\<rparr>),
                       OptionCell (newOptionObj CHR ''f'' ''file'' ''Input file'')]\<rparr> :: unit world"
  have h: "\<not> expect_optarg ?fr" "\<forall>x\<in>set ''vv''. shortIsFlag (world ?fr) x"
    "shortIsOption (world ?fr) CHR ''f''" "paramsByShort (world ?fr) CHR ''z'' = None"
    "''vv'' \<noteq> []"
    by (simp_all add: demoWorld_eq initFrame_def shortIsFlag_def shortIsOption_def isFlag_def
        isOption_def asFlag_def asOption_def newFlagObj_def newOptionObj_def)
  have e: "deliverEach False ''vv'' (world ?fr) = Some ?w'"
    by (simp add: demoWorld_eq initFrame_def takeValueAt_def takeValue_def asFlag_def
        newFlagObj_def Let_def)
  from negation_token [where args = "[]" and c = "CHR ''f''" and post = "''v''", OF h(1,2)] e h
  have 1: "loop ?fr [''+vv''] = Done (?fr\<lparr>world := ?w'\<rparr>) None"
    by auto
  from negation_token [where args = "[''+v'']" and c = "CHR ''f''" and post = "''v''", OF h(1,2)] e h
  have 2: "loop ?fr [''+vvfv'', ''+v''] = Done (?fr\<lparr>world := ?w'\<rparr>) (Some (errTriedToNegateOptArg CHR ''f''))"
    by auto
  from negation_token [where args = "[''+v'']" and c = "CHR ''z''" and post = "''v''", OF h(1,2)] e h
  have 3: "loop ?fr [''+vvzv'', ''+v''] = Done (?fr\<lparr>world := ?w'\<rparr>) (Some (errUnrecognizedShort CHR ''z''))"
    by auto
  show ?thesis using h 1 2 3 by simp
qed

section \<open>Short options and clumps\<close>

text \<open>
  The clump over a prefix of flag characters.
\<close>

lemma clump_step_flag:
  assumes "drop j arg = c # cs" "shortIsFlag (world fr) c"
  shows "\<exists>w'. deliverEach True [c] (world fr) = Some w'
     \<and> clump fr arg j = clump (fr\<lparr>world := w'\<rparr>) arg (j + 1)"
proof -
  from assms(2) obtain p f where p: "paramsByShort (world fr) c = Some p" "asFlag (world fr) p = Some f"
    "takesArgument (world fr) p = Some False"
    by (rule shortIsFlagD)
  show ?thesis
    using drop_eq_ConsD [OF assms(1)] p takeValueAt_Some [OF p(2)]
    by (subst clump.simps) simp
qed

lemma clump_prefix:
  assumes "drop j arg = pre @ post" "\<forall>c\<in>set pre. shortIsFlag (world fr) c"
  shows "\<exists>w'. deliverEach True pre (world fr) = Some w'
     \<and> clump fr arg j = clump (fr\<lparr>world := w'\<rparr>) arg (j + length pre)"
  using assms
proof (induction pre arbitrary: fr j)
  case Nil
  show ?case by simp
next
  case (Cons c pre)
  from Cons.prems(1) have d: "drop j arg = c # (pre @ post)" "drop (j + 1) arg = pre @ post"
    using drop_eq_ConsD [of j arg c "pre @ post"] by simp_all
  from Cons.prems(2) have "shortIsFlag (world fr) c" by simp
  from clump_step_flag [OF d(1) this] obtain w1
    where w1: "deliverEach True [c] (world fr) = Some w1"
      "clump fr arg j = clump (fr\<lparr>world := w1\<rparr>) arg (j + 1)"
    by blast
  have fl: "\<forall>x\<in>set pre. shortIsFlag (world (fr\<lparr>world := w1\<rparr>)) x"
    using Cons.prems(2) deliverEach_short(1) [OF w1(1)] by simp
  from Cons.IH [OF d(2) fl] obtain w'
    where w': "deliverEach True pre w1 = Some w'"
      "clump (fr\<lparr>world := w1\<rparr>) arg (j + 1) = clump (fr\<lparr>world := w'\<rparr>) arg (j + 1 + length pre)"
    by auto
  have "deliverEach True (c # pre) (world fr) = Some w'"
    using deliverEach_append [of True "[c]" pre "world fr"] w1(1) w'(1) by simp
  then show ?case using w1(2) w'(2) by simp
qed

lemma clump_end: "length arg \<le> j \<Longrightarrow> clump fr arg j = Continue fr"
  by (subst clump.simps) simp

lemma clump_unknown:
  assumes "drop j arg = c # post" "paramsByShort (world fr) c = None"
  shows "clump fr arg j = Return fr (Some (errUnrecognizedShort c))"
  using drop_eq_ConsD [OF assms(1)] assms(2) by (subst clump.simps) simp

lemma clump_option_inline:
  assumes "drop j arg = c # post" "post \<noteq> []" "paramsByShort (world fr) c = Some p"
    "asOption (world fr) p = Some opt" "takesArg opt"
  shows "clump fr arg j =
     Continue (fr\<lparr>world := (world fr)\<lparr>heap := (heap (world fr))[p := OptionCell (fst (addOptArg (c # post) opt (user (world fr))))],
            user := snd (addOptArg (c # post) opt (user (world fr)))\<rparr>\<rparr>)"
  using drop_eq_ConsD [OF assms(1)] assms asOption_takesArgument [OF assms(4)]
    addOptArgAt_Some [OF assms(4), of "c # post"]
  by (subst clump.simps) simp

lemma body_minus:
  assumes "\<not> expect_optarg fr" "c \<noteq> CHR ''-''" 
  shows "body fr (CHR ''-'' # c # cs) args = clump fr (CHR ''-'' # c # cs) 1"
proof (cases cs)
  case Nil
  have "clump fr [CHR ''-'', c] 1 = shortOpt fr c"
    by (subst clump.simps) (simp add: clump_end shortOpt_def split: option.splits bool.splits)
  then show ?thesis using assms Nil by (simp add: body_def)
next
  case (Cons d ds)
  then show ?thesis using assms by (simp add: body_def)
qed

text \<open>
  What the clump does at its first character that is not a flag.
\<close>

lemma clump_head:
  assumes "drop j arg = c # post" "\<not> shortIsFlag (world fr) c"
  shows "clump fr arg j =
     (case paramsByShort (world fr) c of
        None \<Rightarrow> Return fr (Some (errUnrecognizedShort c))
      | Some p \<Rightarrow>
          (case takesArgument (world fr) p of
             None \<Rightarrow> Panic
           | Some True \<Rightarrow>
               (if post \<noteq> [] then
                  (case addOptArgAt p (c # post) (world fr) of
                     None \<Rightarrow> Panic
                   | Some w \<Rightarrow> Continue (fr\<lparr>world := w\<rparr>))
                else
                  (case asOption (world fr) p of
                     None \<Rightarrow> Panic
                   | Some _ \<Rightarrow> Continue (fr\<lparr>waiting_opt := Some p, expect_optarg := True\<rparr>)))
           | Some False \<Rightarrow> Panic))"
proof (cases "paramsByShort (world fr) c")
  case None
  then show ?thesis using clump_unknown [OF assms(1)] by simp
next
  case (Some p)
  note d = drop_eq_ConsD [OF assms(1)]
  show ?thesis
  proof (cases "takesArgument (world fr) p")
    case None
    then show ?thesis using Some d by (subst clump.simps) simp
  next
    case ta: (Some b)
    show ?thesis
    proof (cases b)
      case True
      show ?thesis
      proof (cases "post = []")
        case True
        then have e: "length arg \<le> j + 1" using d(1,4) by simp
        show ?thesis
          using Some ta \<open>b\<close> True d e
          by (subst clump.simps) (simp add: clump_end split: option.splits)
      next
        case False
        then show ?thesis
          using Some ta \<open>b\<close> d assms(1)
          by (subst clump.simps) (simp split: option.splits)
      qed
    next
      case False
      have "takeValueAt p True (world fr) = None"
        using not_flag_takeValueAt [OF Some assms(2)] ta False by simp
      then show ?thesis using Some ta False d by (subst clump.simps) simp
    qed
  qed
qed

lemma clump_decomp:
  "\<exists>pre post w'. drop j arg = pre @ post \<and> deliverEach True pre (world fr) = Some w'
     \<and> clump fr arg j = clump (fr\<lparr>world := w'\<rparr>) arg (j + length pre)
     \<and> drop (j + length pre) arg = post
     \<and> (post = [] \<or> \<not> shortIsFlag w' (hd post))"
proof -
  from flag_prefix [of "drop j arg" "world fr"] obtain pre post
    where pp: "drop j arg = pre @ post" "\<forall>c\<in>set pre. shortIsFlag (world fr) c"
      "post = [] \<or> \<not> shortIsFlag (world fr) (hd post)"
    by blast
  from clump_prefix [OF pp(1,2)] obtain w'
    where w': "deliverEach True pre (world fr) = Some w'"
      "clump fr arg j = clump (fr\<lparr>world := w'\<rparr>) arg (j + length pre)"
    by blast
  have "drop (j + length pre) arg = post"
    using pp(1) by (metis add.commute append_eq_conv_conj drop_drop)
  moreover have "post = [] \<or> \<not> shortIsFlag w' (hd post)"
    using pp(3) deliverEach_short(1) [OF w'(1)] by simp
  ultimately show ?thesis using pp(1) w' by blast
qed

lemma clump_Return:
  assumes "clump fr arg j = Return fr' err"
  shows "\<exists>pre c post. drop j arg = pre @ c # post
     \<and> deliverEach True pre (world fr) = Some (world fr')
     \<and> fr' = fr\<lparr>world := world fr'\<rparr> \<and> err = Some (errUnrecognizedShort c)"
proof -
  from clump_decomp [of j arg fr] obtain pre post w'
    where d: "drop j arg = pre @ post" "deliverEach True pre (world fr) = Some w'"
      "clump fr arg j = clump (fr\<lparr>world := w'\<rparr>) arg (j + length pre)"
      "drop (j + length pre) arg = post" "post = [] \<or> \<not> shortIsFlag w' (hd post)"
    by blast
  show ?thesis
  proof (cases post)
    case Nil
    then have "length arg \<le> j + length pre" using d(4) by simp
    then show ?thesis using assms d(3) by (simp add: clump_end)
  next
    case (Cons c post')
    then have nf: "\<not> shortIsFlag (world (fr\<lparr>world := w'\<rparr>)) c" using d(5) by simp
    have dd: "drop (j + length pre) arg = c # post'" using d(4) Cons by simp
    have "fr' = fr\<lparr>world := w'\<rparr> \<and> err = Some (errUnrecognizedShort c)"
      using assms d(3) clump_head [OF dd nf]
      by (auto split: option.splits bool.splits if_splits)
    then show ?thesis using d(1,2) Cons by auto
  qed
qed

lemma clump_awaiting:
  assumes "clump fr arg j = Continue fr'" "expect_optarg fr'" "\<not> expect_optarg fr"
  shows "rest fr' = rest fr
     \<and> (\<exists>p opt. waiting_opt fr' = Some p \<and> asOption (world fr') p = Some opt \<and> takesArg opt)
     \<and> (\<forall>q. asOption (world fr') q = asOption (world fr) q)"
proof -
  from clump_decomp [of j arg fr] obtain pre post w'
    where d: "drop j arg = pre @ post" "deliverEach True pre (world fr) = Some w'"
      "clump fr arg j = clump (fr\<lparr>world := w'\<rparr>) arg (j + length pre)"
      "drop (j + length pre) arg = post" "post = [] \<or> \<not> shortIsFlag w' (hd post)"
    by blast
  note fw = deliverEach_frame [OF d(2)]
  show ?thesis
  proof (cases post)
    case Nil
    then have "length arg \<le> j + length pre" using d(4) by simp
    then have "fr' = fr\<lparr>world := w'\<rparr>" using assms(1) d(3) by (simp add: clump_end)
    then show ?thesis using assms(2,3) by simp
  next
    case (Cons c post')
    then have nf: "\<not> shortIsFlag (world (fr\<lparr>world := w'\<rparr>)) c" using d(5) by simp
    have dd: "drop (j + length pre) arg = c # post'" using d(4) Cons by simp
    have "\<exists>p opt. fr' = fr\<lparr>world := w', waiting_opt := Some p, expect_optarg := True\<rparr>
        \<and> asOption w' p = Some opt \<and> takesArgument w' p = Some True"
      using assms d(3) clump_head [OF dd nf]
      by (auto split: option.splits bool.splits if_splits)
    then obtain p opt where p: "fr' = fr\<lparr>world := w', waiting_opt := Some p, expect_optarg := True\<rparr>"
      "asOption w' p = Some opt" "takesArgument w' p = Some True"
      by blast
    have "takesArg opt" using asOption_takesArgument [OF p(2)] p(3) by simp
    then show ?thesis using p fw by simp
  qed
qed

lemma shortOpt_Return: "shortOpt fr c = Return fr' err \<Longrightarrow> fr' = fr \<and> err \<noteq> None"
  by (auto simp: shortOpt_def split: option.splits bool.splits)

lemma shortOpt_awaiting:
  assumes "shortOpt fr c = Continue fr'" "expect_optarg fr'" "\<not> expect_optarg fr"
  shows "rest fr' = rest fr
     \<and> (\<exists>p opt. waiting_opt fr' = Some p \<and> asOption (world fr') p = Some opt \<and> takesArg opt)
     \<and> (\<forall>q. asOption (world fr') q = asOption (world fr) q)"
proof -
  from assms obtain p opt where "fr' = fr\<lparr>waiting_opt := Some p, expect_optarg := True\<rparr>"
    "asOption (world fr) p = Some opt" "takesArgument (world fr) p = Some True"
    by (auto simp: shortOpt_def split: option.splits bool.splits)
  then show ?thesis using asOption_takesArgument [of "world fr" p opt] by simp
qed

lemma body_short_flag:
  assumes "\<not> expect_optarg fr" "X \<noteq> CHR ''-''" "paramsByShort (world fr) X = Some p"
    "asFlag (world fr) p = Some g" "\<not> takesArg g"
  shows "body fr [CHR ''-'', X] args =
     Continue (fr\<lparr>world := (world fr)
                 \<lparr>heap := (heap (world fr))[p := FlagCell (fst (takeValue True g (user (world fr))))],
                  user := snd (takeValue True g (user (world fr)))\<rparr>\<rparr>)"
  using assms asFlag_takesArgument [OF assms(4)] takeValueAt_Some [OF assms(4), of True]
  by (simp add: body_def shortOpt_def)

lemma body_neg_flag:
  assumes "\<not> expect_optarg fr" "paramsByShort (world fr) X = Some p"
    "asFlag (world fr) p = Some g" "\<not> takesArg g"
  shows "body fr [CHR ''+'', X] args =
     Continue (fr\<lparr>world := (world fr)
                 \<lparr>heap := (heap (world fr))[p := FlagCell (fst (takeValue False g (user (world fr))))],
                  user := snd (takeValue False g (user (world fr)))\<rparr>\<rparr>)"
  using assms asFlag_takesArgument [OF assms(3)] takeValueAt_Some [OF assms(3), of False]
  by (simp add: body_def negShort_def)

text \<open>
  An Option inside a clump, in general: after the Flags before it, the Option gets the
  slice of the token that starts at its own character, and the scan ends.
\<close>

lemma clump_inline_value:
  assumes "\<not> expect_optarg fr" "\<forall>x\<in>set pre. shortIsFlag (world fr) x"
    "hd (pre @ [c]) \<noteq> CHR ''-''" "shortIsOption (world fr) c" "post \<noteq> []"
  shows "\<exists>w' p opt. deliverEach True pre (world fr) = Some w'
     \<and> paramsByShort w' c = Some p \<and> asOption w' p = Some opt
     \<and> body fr (CHR ''-'' # pre @ c # post) args =
         Continue (fr\<lparr>world := w'
                     \<lparr>heap := (heap w')[p := OptionCell (fst (addOptArg (c # post) opt (user w')))],
                      user := snd (addOptArg (c # post) opt (user w'))\<rparr>\<rparr>)"
proof -
  let ?arg = "CHR ''-'' # pre @ c # post"
  obtain c0 cs where cs: "pre @ c # post = c0 # cs" "c0 = hd (pre @ [c])"
    by (cases pre) auto
  have b: "body fr ?arg args = clump fr ?arg 1"
    using body_minus [OF assms(1), of c0 cs args] assms(3) cs by simp
  have "drop 1 ?arg = pre @ c # post" by simp
  from clump_prefix [OF this assms(2)] obtain w'
    where w': "deliverEach True pre (world fr) = Some w'"
      "clump fr ?arg 1 = clump (fr\<lparr>world := w'\<rparr>) ?arg (1 + length pre)"
    by blast
  have "shortIsOption w' c" using assms(4) deliverEach_short(2) [OF w'(1)] by simp
  then obtain p opt where p: "paramsByShort w' c = Some p" "asOption w' p = Some opt" "takesArg opt"
    by (rule shortIsOptionD)
  have d: "drop (1 + length pre) ?arg = c # post" by simp
  have "clump (fr\<lparr>world := w'\<rparr>) ?arg (1 + length pre) =
     Continue (fr\<lparr>world := w'
                     \<lparr>heap := (heap w')[p := OptionCell (fst (addOptArg (c # post) opt (user w')))],
                      user := snd (addOptArg (c # post) opt (user w'))\<rparr>\<rparr>)"
    using clump_option_inline [OF d assms(5), of "fr\<lparr>world := w'\<rparr>" p opt] p by simp
  then show ?thesis using b w' p by simp
qed

text \<open>
  Claim C1: in a clump, an argument-taking Option that is not the last character
  receives as its inline value the remainder of the token from the position after its
  own character, and no later character of the token is read as an option.  The run
  below is the token \<open>-ffile.txt\<close> with \<open>f\<close> registered as an Option.  No later
  character is read as an option, but the value delivered is \<open>ffile.txt\<close>: the slice
  \<open>arg[j:]\<close> starts at the option character itself.  The two-token form
  \<open>-f file.txt\<close> delivers \<open>file.txt\<close>.
\<close>

theorem inline_value_keeps_option_char:
  "ArgParse [''prog'', ''-ffile.txt''] (demoWorld ()) =
     Done \<lparr>world = (demoWorld ())
             \<lparr>heap := [FlagCell (newFlagObj CHR ''v'' ''verbose'' ''Increase verbosity''),
                       OptionCell ((newOptionObj CHR ''f'' ''file'' ''Input file'')
                          \<lparr>Passed := True, OptArg := ''ffile.txt'', OptArgs := [''ffile.txt'']\<rparr>)]\<rparr>,
           rest = [], expect_optarg = False, waiting_opt = None\<rparr> None
   \<and> ArgParse [''prog'', ''-f'', ''file.txt''] (demoWorld ()) =
     Done \<lparr>world = (demoWorld ())
             \<lparr>heap := [FlagCell (newFlagObj CHR ''v'' ''verbose'' ''Increase verbosity''),
                       OptionCell ((newOptionObj CHR ''f'' ''file'' ''Input file'')
                          \<lparr>Passed := True, OptArg := ''file.txt'', OptArgs := [''file.txt'']\<rparr>)]\<rparr>,
           rest = [], expect_optarg = False, waiting_opt = Some 1\<rparr> None"
  by (simp add: demoWorld_eq ArgParse_def initFrame_def body_def clump.simps shortOpt_def
      takesArgument_def asOption_def addOptArgAt_def addOptArg_def newFlagObj_def newOptionObj_def
      Let_def)

text \<open>
  Claim C5, as amended: after any sequence of deliveries the \<open>Count\<close> of a Flag is its
  initial count (zero at creation) plus the number of true deliveries minus the number of
  false ones, in the wrapping arithmetic of the 64-bit \<open>int\<close>: it equals that
  difference, which may be negative, whenever the difference lies between \<open>-2^63\<close> and
  \<open>2^63 - 1\<close>.  The boolean state is the last delivered value.  With no option awaiting
  a value, the token \<open>-X\<close> for a Flag \<open>X\<close> other than \<open>-\<close> delivers true (count plus
  one), and the token \<open>+X\<close> delivers false (count minus one).  (As stated the claim
  fails: the count is not unbounded, and for a Flag registered under the short name
  \<open>-\<close> the token \<open>--\<close> is the terminator.)
\<close>

theorem Flag_count:
  "Count (fst (takeValues vs f u)) = Count f + word_of_int (net vs)
   \<and> (Count f = 0 \<and> - (2 ^ 63) \<le> net vs \<and> net vs < 2 ^ 63 \<longrightarrow>
        sint (Count (fst (takeValues vs f u))) = net vs)
   \<and> (vs \<noteq> [] \<longrightarrow> Passed (fst (takeValues vs f u)) = last vs)
   \<and> Count (newFlagObj s l h :: 'u Flag) = 0
   \<and> (\<not> expect_optarg fr \<and> paramsByShort (world fr) X = Some p
        \<and> asFlag (world fr) p = Some g \<and> \<not> takesArg g \<longrightarrow>
        (X \<noteq> CHR ''-'' \<longrightarrow>
           loop fr ([CHR ''-'', X] # args) =
             loop (fr\<lparr>world := (world fr)
                     \<lparr>heap := (heap (world fr))[p := FlagCell (fst (takeValue True g (user (world fr))))],
                      user := snd (takeValue True g (user (world fr)))\<rparr>\<rparr>) args)
        \<and> loop fr ([CHR ''+'', X] # args) =
             loop (fr\<lparr>world := (world fr)
                     \<lparr>heap := (heap (world fr))[p := FlagCell (fst (takeValue False g (user (world fr))))],
                      user := snd (takeValue False g (user (world fr)))\<rparr>\<rparr>) args
        \<and> Count (fst (takeValue True g (user (world fr)))) = Count g + 1
        \<and> Passed (fst (takeValue True g (user (world fr))))
        \<and> Count (fst (takeValue False g (user (world fr)))) = Count g - 1
        \<and> \<not> Passed (fst (takeValue False g (user (world fr)))))"
proof -
  have 1: "Count (fst (takeValues vs f u)) = Count f + word_of_int (net vs)"
    by (rule takeValues_Count)
  have 2: "sint (Count (fst (takeValues vs f u))) = net vs"
    if "Count f = 0" "- (2 ^ 63) \<le> net vs" "net vs < 2 ^ 63"
    using 1 that sint_in_range [of "net vs"] by simp
  have 3: "Passed (fst (takeValues vs f u)) = last vs" if "vs \<noteq> []"
    using takeValues_Passed [OF that] .
  have 4: "Count (newFlagObj s l h :: 'u Flag) = 0" by (simp add: newFlagObj_def)
  have 5: "loop fr ([CHR ''-'', X] # args) =
             loop (fr\<lparr>world := (world fr)
                     \<lparr>heap := (heap (world fr))[p := FlagCell (fst (takeValue True g (user (world fr))))],
                      user := snd (takeValue True g (user (world fr)))\<rparr>\<rparr>) args"
    if "\<not> expect_optarg fr" "paramsByShort (world fr) X = Some p"
        "asFlag (world fr) p = Some g" "\<not> takesArg g" "X \<noteq> CHR ''-''"
    using body_short_flag [OF that(1,5,2,3,4), of args] by simp
  have 6: "loop fr ([CHR ''+'', X] # args) =
             loop (fr\<lparr>world := (world fr)
                     \<lparr>heap := (heap (world fr))[p := FlagCell (fst (takeValue False g (user (world fr))))],
                      user := snd (takeValue False g (user (world fr)))\<rparr>\<rparr>) args"
    if "\<not> expect_optarg fr" "paramsByShort (world fr) X = Some p"
        "asFlag (world fr) p = Some g" "\<not> takesArg g"
    using body_neg_flag [OF that, of args] by simp
  have 7: "Count (fst (takeValue True g (user (world fr)))) = Count g + 1"
    "Passed (fst (takeValue True g (user (world fr))))"
    "Count (fst (takeValue False g (user (world fr)))) = Count g - 1"
    "\<not> Passed (fst (takeValue False g (user (world fr))))"
    by (simp_all add: takeValue_Count takeValue_Passed)
  show ?thesis
    using 1 2 3 4 5 6 7 by (intro conjI impI) (simp_all del: loop.simps)
qed

theorem Flag_count_witness:
  "sint (Count (fst (takeValues [True, True, False] (newFlagObj CHR ''v'' ''verbose'' [] :: unit Flag) ()))) = 1
   \<and> \<not> Passed (fst (takeValues [True, True, False] (newFlagObj CHR ''v'' ''verbose'' [] :: unit Flag) ()))
   \<and> loop (initFrame (demoWorld ())) [''-v''] =
       Done ((initFrame (demoWorld ()))
          \<lparr>world := (demoWorld ())
             \<lparr>heap := [FlagCell ((newFlagObj CHR ''v'' ''verbose'' ''Increase verbosity'')
                                   \<lparr>Passed := True, Count := 1\<rparr>),
                       OptionCell (newOptionObj CHR ''f'' ''file'' ''Input file'')]\<rparr>\<rparr>) None
   \<and> loop (initFrame (demoWorld ())) [''+v''] =
       Done ((initFrame (demoWorld ()))
          \<lparr>world := (demoWorld ())
             \<lparr>heap := [FlagCell ((newFlagObj CHR ''v'' ''verbose'' ''Increase verbosity'')
                                   \<lparr>Passed := False, Count := - 1\<rparr>),
                       OptionCell (newOptionObj CHR ''f'' ''file'' ''Input file'')]\<rparr>\<rparr>) None"
proof -
  have h: "\<not> expect_optarg (initFrame (demoWorld ()))"
    "paramsByShort (world (initFrame (demoWorld ()))) CHR ''v'' = Some 0"
    "asFlag (world (initFrame (demoWorld ()))) 0 = Some (newFlagObj CHR ''v'' ''verbose'' ''Increase verbosity'')"
    "\<not> takesArg (newFlagObj CHR ''v'' ''verbose'' ''Increase verbosity'' :: unit Flag)"
    "CHR ''v'' \<noteq> CHR ''-''"
    "[True, True, False] \<noteq> []"
    "Count (newFlagObj CHR ''v'' ''verbose'' [] :: unit Flag) = 0"
    "net [True, True, False] = 1"
    by (simp_all add: demoWorld_eq initFrame_def asFlag_def newFlagObj_def net_def)
  show ?thesis
    using h Flag_count [where vs = "[True, True, False]"
        and f = "newFlagObj CHR ''v'' ''verbose'' [] :: unit Flag" and u = "()"
        and s = "CHR ''v''" and l = "''verbose''" and h = "[]" and fr = "initFrame (demoWorld ())"
        and X = "CHR ''v''" and p = 0
        and g = "newFlagObj CHR ''v'' ''verbose'' ''Increase verbosity''" and args = "[]"]
    by (simp add: demoWorld_eq initFrame_def takeValue_def newFlagObj_def Let_def)
qed

theorem Flag_count_counterexample:
  "sint (Count (fst (takeValues (replicate (2 ^ 63) True)
                       (newFlagObj CHR ''v'' ''verbose'' [] :: unit Flag) ())))
     \<noteq> int (count_list (replicate (2 ^ 63) True) True)
         - int (count_list (replicate (2 ^ 63) True) False)
   \<and> (case NewFlag CHR ''-'' ''dash'' [] (emptyWorld ()) of
         None \<Rightarrow> False
       | Some (p, w) \<Rightarrow>
           paramsByShort w CHR ''-'' = Some p
           \<and> ArgParse [''prog'', [CHR ''-'', CHR ''-'']] w = Done (initFrame w) None)"
proof -
  have n: "net (replicate (2 ^ 63) True) = 2 ^ 63"
    using net_replicate [of "2 ^ 63"] by simp
  have "Count (fst (takeValues (replicate (2 ^ 63) True)
                       (newFlagObj CHR ''v'' ''verbose'' [] :: unit Flag) ()))
        = word_of_int (2 ^ 63)"
    using takeValues_Count [of "replicate (2 ^ 63) True" "newFlagObj CHR ''v'' ''verbose'' [] :: unit Flag" "()"] n
    by (simp add: newFlagObj_def)
  then have 1: "sint (Count (fst (takeValues (replicate (2 ^ 63) True)
                       (newFlagObj CHR ''v'' ''verbose'' [] :: unit Flag) ()))) = - (2 ^ 63)"
    by simp
  have 2: "int (count_list (replicate (2 ^ 63) True) True)
         - int (count_list (replicate (2 ^ 63) True) False) = 2 ^ 63"
    using n by (simp add: net_def)
  have 3: "(case NewFlag CHR ''-'' ''dash'' [] (emptyWorld ()) of
         None \<Rightarrow> False
       | Some (p, w) \<Rightarrow>
           paramsByShort w CHR ''-'' = Some p
           \<and> ArgParse [''prog'', [CHR ''-'', CHR ''-'']] w = Done (initFrame w) None)"
    by (simp add: NewFlag_def emptyWorld_def checkShort_def checkLong_def Let_def
        ArgParse_def initFrame_def body_def)
  show ?thesis unfolding 1 2 using 3 by simp
qed

section \<open>Long options\<close>

lemma longOpt_Return: "longOpt fr l = Return fr' err \<Longrightarrow> fr' = fr \<and> err \<noteq> None"
  by (auto simp: longOpt_def split: option.splits bool.splits)

lemma longOptArg_Return: "longOptArg fr l a = Return fr' err \<Longrightarrow> fr' = fr \<and> err \<noteq> None"
  by (auto simp: longOptArg_def split: option.splits bool.splits sum.splits)

lemma longOpt_awaiting:
  assumes "longOpt fr l = Continue fr'" "expect_optarg fr'" "\<not> expect_optarg fr"
  shows "rest fr' = rest fr
     \<and> (\<exists>p opt. waiting_opt fr' = Some p \<and> asOption (world fr') p = Some opt \<and> takesArg opt)
     \<and> (\<forall>q. asOption (world fr') q = asOption (world fr) q)"
proof -
  from assms obtain p opt where "fr' = fr\<lparr>waiting_opt := Some p, expect_optarg := True\<rparr>"
    "asOption (world fr) p = Some opt" "takesArgument (world fr) p = Some True"
    by (auto simp: longOpt_def split: option.splits bool.splits)
  then show ?thesis using asOption_takesArgument [of "world fr" p opt] by simp
qed

lemma longOptArg_Continue: "longOptArg fr l a = Continue fr' \<Longrightarrow> expect_optarg fr' = expect_optarg fr"
  by (auto simp: longOptArg_def split: option.splits bool.splits sum.splits)

text \<open>
  The eight spellings: those read as true and those read as false begin with
  different letters.
\<close>

lemma foldASCII_nat:
  assumes "foldASCII c d"
  shows "(of_char c :: nat) = of_char d \<or> (of_char c :: nat) + 32 = of_char d
     \<or> ((of_char d :: nat) \<le> 90 \<and> (of_char c :: nat) = of_char d + 32)"
  using assms by (auto simp: foldASCII_def Let_def min_def max_def split: if_splits)

lemma EqualFold_hd:
  assumes "EqualFold v (d # t)" "d \<noteq> CHR ''s''" "d \<noteq> CHR ''S''" "d \<noteq> CHR ''k''" "d \<noteq> CHR ''K''"
  shows "\<exists>c s. v = c # s \<and> foldASCII c d"
  using assms by (cases v) (auto split: if_splits)

lemma first_letter:
  assumes "spellsTrue v"
  shows "\<exists>c s. v = c # s \<and> (of_char c :: nat) \<in> {116, 84, 121, 89}"
proof -
  from assms consider "EqualFold v (CHR ''t'' # [])" | "EqualFold v (CHR ''y'' # [])"
    | "EqualFold v (CHR ''y'' # ''es'')" | "EqualFold v (CHR ''t'' # ''rue'')"
    by (auto simp: spellsTrue_def)
  then obtain d t where e: "EqualFold v (d # t)" and d: "d = CHR ''t'' \<or> d = CHR ''y''"
    by cases blast+
  from EqualFold_hd [OF e] d obtain c s where c: "v = c # s" "foldASCII c d" by auto
  from foldASCII_nat [OF c(2)] d have "(of_char c :: nat) \<in> {116, 84, 121, 89}" by auto
  then show ?thesis using c(1) by blast
qed

lemma first_letter_False:
  assumes "spellsFalse v"
  shows "\<exists>c s. v = c # s \<and> (of_char c :: nat) \<in> {102, 70, 110, 78}"
proof -
  from assms consider "EqualFold v (CHR ''f'' # [])" | "EqualFold v (CHR ''n'' # [])"
    | "EqualFold v (CHR ''n'' # ''o'')" | "EqualFold v (CHR ''f'' # ''alse'')"
    by (auto simp: spellsFalse_def)
  then obtain d t where e: "EqualFold v (d # t)" and d: "d = CHR ''f'' \<or> d = CHR ''n''"
    by cases blast+
  from EqualFold_hd [OF e] d obtain c s where c: "v = c # s" "foldASCII c d" by auto
  from foldASCII_nat [OF c(2)] d have "(of_char c :: nat) \<in> {102, 70, 110, 78}" by auto
  then show ?thesis using c(1) by blast
qed

lemma spells_exclusive: "spellsTrue v \<Longrightarrow> \<not> spellsFalse v"
  using first_letter [of v] first_letter_False [of v] by auto

lemma parseFlagOpt_eq:
  "parseFlagOpt flag v =
     (if spellsTrue v then Inr True
      else if spellsFalse v then Inr False
      else Inl (errPassedOptargToFlag flag))"
proof (cases "spellsTrue v")
  case True
  then have "\<not> spellsFalse v" by (rule spells_exclusive)
  then show ?thesis using True by (auto simp: parseFlagOpt_def spellsTrue_def spellsFalse_def)
next
  case False
  then show ?thesis by (auto simp: parseFlagOpt_def spellsTrue_def spellsFalse_def)
qed

text \<open>
  On ASCII values, folding is comparison after lowering the letters \<open>A\<close> to \<open>Z\<close>.
\<close>

lemma foldASCII_lower:
  assumes "97 \<le> (of_char d :: nat)" "(of_char d :: nat) \<le> 122"
  shows "foldASCII c d \<longleftrightarrow> lower c = d"
proof -
  have eq: "char_of ((of_char c :: nat) + 32) = d \<longleftrightarrow> (of_char c :: nat) + 32 = of_char d"
    if "(of_char c :: nat) \<le> 90"
  proof -
    have "((of_char c :: nat) + 32) mod 256 = of_char c + 32" using that by simp
    then have "(of_char (char_of ((of_char c :: nat) + 32)) :: nat) = of_char c + 32" by simp
    then show ?thesis by (metis char_of_char)
  qed
  have ne: "c \<noteq> d" if "(of_char c :: nat) \<le> 90" using that assms by auto
  show ?thesis
    using assms eq ne
    by (auto simp: foldASCII_def lower_def Let_def min_def max_def)
qed

lemma EqualFold_ascii:
  assumes "\<forall>c\<in>set v. (of_char c :: nat) < 128"
    and "\<forall>d\<in>set w. 97 \<le> (of_char d :: nat) \<and> (of_char d :: nat) \<le> 122"
  shows "EqualFold v w \<longleftrightarrow> map lower v = w"
  using assms
proof (induction v w rule: EqualFold.induct)
  case (4 c s d t)
  then show ?case using foldASCII_lower [of d c] by auto
qed simp_all

lemma spells_ascii:
  assumes "\<forall>c\<in>set v. (of_char c :: nat) < 128"
  shows "spellsTrue v \<longleftrightarrow> map lower v \<in> {''t'', ''y'', ''yes'', ''true''}"
    and "spellsFalse v \<longleftrightarrow> map lower v \<in> {''f'', ''n'', ''no'', ''false''}"
  using assms by (simp_all add: spellsTrue_def spellsFalse_def EqualFold_ascii)

lemma body_long_inline:
  assumes "\<not> expect_optarg fr" "CHR ''='' \<notin> set name"
  shows "body fr (''--'' @ name @ ''='' @ v) args = longOptArg fr name v"
proof -
  let ?tok = "''--'' @ name @ ''='' @ v"
  have "\<And>x. x \<in> set name \<Longrightarrow> x \<noteq> CHR ''=''" using assms(2) by auto
  then have tw: "takeWhile (\<lambda>b. b \<noteq> CHR ''='') ?tok = ''--'' @ name"
    by simp
  have "\<not> positional ?tok" by (simp add: positional_def)
  moreover have "?tok \<noteq> []" "?tok \<noteq> ''--''" "length ?tok \<noteq> 2" "?tok ! 0 \<noteq> CHR ''+''"
    "?tok ! 1 = CHR ''-''" "CHR ''='' \<in> set ?tok"
    by simp_all
  ultimately show ?thesis
    using assms(1) by (subst body_cases) (simp only: tw if_False if_True simp_thms, simp)
qed

lemma longOptArg_unknown:
  "paramsByLong (world fr) name = None \<Longrightarrow>
   longOptArg fr name v = Return fr (Some (errUnrecognizedLong name))"
  by (simp add: longOptArg_def)

lemma longOptArg_option:
  assumes "paramsByLong (world fr) name = Some p" "asOption (world fr) p = Some opt" "takesArg opt"
  shows "longOptArg fr name v =
     Continue (fr\<lparr>world := (world fr)
                 \<lparr>heap := (heap (world fr))[p := OptionCell (fst (addOptArg v opt (user (world fr))))],
                  user := snd (addOptArg v opt (user (world fr)))\<rparr>\<rparr>)"
  using assms asOption_takesArgument [OF assms(2)] addOptArgAt_Some [OF assms(2), of v]
  by (simp add: longOptArg_def)

lemma longOptArg_flag:
  assumes "paramsByLong (world fr) name = Some p" "asFlag (world fr) p = Some f" "\<not> takesArg f"
  shows "longOptArg fr name v =
     (if spellsTrue v \<or> spellsFalse v then
        Continue (fr\<lparr>world := (world fr)
                 \<lparr>heap := (heap (world fr))[p := FlagCell (fst (takeValue (spellsTrue v) f (user (world fr))))],
                  user := snd (takeValue (spellsTrue v) f (user (world fr)))\<rparr>\<rparr>)
      else Return fr (Some (errPassedOptargToFlag name)))"
  using assms asFlag_takesArgument [OF assms(2)] takeValueAt_Some [OF assms(2)]
  by (simp add: longOptArg_def parseFlagOpt_eq)

text \<open>
  Claim C7: a token \<open>--name=value\<close>, read while no option awaits a value, is split at
  its first \<open>=\<close> (\<open>name\<close> holds none, \<open>value\<close> may).  An unknown \<open>name\<close> fails with
  the unrecognized long option \<open>name\<close>.  If \<open>name\<close> resolves to an Option, \<open>value\<close> is
  delivered to it at once and no option is left awaiting.  If it resolves to a Flag, a
  spelling of \<open>t\<close>, \<open>y\<close>, \<open>yes\<close> or \<open>true\<close> delivers true, a spelling of \<open>f\<close>, \<open>n\<close>,
  \<open>no\<close> or \<open>false\<close> delivers false, no value is both, and any other value fails with
  the invalid boolean error that names \<open>name\<close>.  Spellings are compared by
  \<open>EqualFold\<close>; on ASCII values that is equality after lowering the letters.
\<close>

theorem long_option_inline_value:
  assumes "\<not> expect_optarg fr" and "CHR ''='' \<notin> set name"
    and "tok = ''--'' @ name @ ''='' @ v"
  shows "(paramsByLong (world fr) name = None \<longrightarrow>
            loop fr (tok # args) = Done fr (Some (errUnrecognizedLong name)))
     \<and> (paramsByLong (world fr) name = Some p \<and> asOption (world fr) p = Some opt \<and> takesArg opt \<longrightarrow>
            loop fr (tok # args) =
              loop (fr\<lparr>world := (world fr)
                      \<lparr>heap := (heap (world fr))[p := OptionCell (fst (addOptArg v opt (user (world fr))))],
                       user := snd (addOptArg v opt (user (world fr)))\<rparr>\<rparr>) args)
     \<and> (paramsByLong (world fr) name = Some q \<and> asFlag (world fr) q = Some f \<and> \<not> takesArg f \<longrightarrow>
            (spellsTrue v \<or> spellsFalse v \<longrightarrow>
               loop fr (tok # args) =
                 loop (fr\<lparr>world := (world fr)
                      \<lparr>heap := (heap (world fr))[q := FlagCell (fst (takeValue (spellsTrue v) f (user (world fr))))],
                       user := snd (takeValue (spellsTrue v) f (user (world fr)))\<rparr>\<rparr>) args)
          \<and> (\<not> spellsTrue v \<and> \<not> spellsFalse v \<longrightarrow>
               loop fr (tok # args) = Done fr (Some (errPassedOptargToFlag name))))
     \<and> \<not> (spellsTrue v \<and> spellsFalse v)
     \<and> ((\<forall>c\<in>set v. (of_char c :: nat) < 128) \<longrightarrow>
          (spellsTrue v \<longleftrightarrow> map lower v \<in> {''t'', ''y'', ''yes'', ''true''})
        \<and> (spellsFalse v \<longleftrightarrow> map lower v \<in> {''f'', ''n'', ''no'', ''false''}))"
proof -
  have b: "body fr tok args = longOptArg fr name v"
    unfolding assms(3) by (rule body_long_inline [OF assms(1,2)])
  have 1: "loop fr (tok # args) = Done fr (Some (errUnrecognizedLong name))"
    if "paramsByLong (world fr) name = None"
    using b longOptArg_unknown [OF that] by simp
  have 2: "loop fr (tok # args) =
              loop (fr\<lparr>world := (world fr)
                      \<lparr>heap := (heap (world fr))[p := OptionCell (fst (addOptArg v opt (user (world fr))))],
                       user := snd (addOptArg v opt (user (world fr)))\<rparr>\<rparr>) args"
    if "paramsByLong (world fr) name = Some p" "asOption (world fr) p = Some opt" "takesArg opt"
    for p opt
    using b longOptArg_option [OF that] by simp
  have 3: "loop fr (tok # args) =
                 loop (fr\<lparr>world := (world fr)
                      \<lparr>heap := (heap (world fr))[p := FlagCell (fst (takeValue (spellsTrue v) f (user (world fr))))],
                       user := snd (takeValue (spellsTrue v) f (user (world fr)))\<rparr>\<rparr>) args"
    if "paramsByLong (world fr) name = Some p" "asFlag (world fr) p = Some f" "\<not> takesArg f"
      "spellsTrue v \<or> spellsFalse v"
    for p f
    using b longOptArg_flag [OF that(1,2,3), of v] that(4) by simp
  have 4: "loop fr (tok # args) = Done fr (Some (errPassedOptargToFlag name))"
    if "paramsByLong (world fr) name = Some p" "asFlag (world fr) p = Some f" "\<not> takesArg f"
      "\<not> spellsTrue v" "\<not> spellsFalse v"
    for p f
    using b longOptArg_flag [OF that(1,2,3), of v] that(4,5) by simp
  have 5: "\<not> (spellsTrue v \<and> spellsFalse v)" using spells_exclusive by blast
  show ?thesis
    using 1 2 [of p opt] 3 [of q f] 4 [of q f] 5 spells_ascii [of v]
    by (intro conjI impI) blast+
qed

theorem long_option_inline_value_witness:
  "loop (initFrame (demoWorld ())) [''--verbose=YeS''] =
     Done ((initFrame (demoWorld ()))
          \<lparr>world := (demoWorld ())
             \<lparr>heap := [FlagCell ((newFlagObj CHR ''v'' ''verbose'' ''Increase verbosity'')
                                   \<lparr>Passed := True, Count := 1\<rparr>),
                       OptionCell (newOptionObj CHR ''f'' ''file'' ''Input file'')]\<rparr>\<rparr>) None
   \<and> loop (initFrame (demoWorld ())) [''--file=a=b''] =
     Done ((initFrame (demoWorld ()))
          \<lparr>world := (demoWorld ())
             \<lparr>heap := [FlagCell (newFlagObj CHR ''v'' ''verbose'' ''Increase verbosity''),
                       OptionCell ((newOptionObj CHR ''f'' ''file'' ''Input file'')
                          \<lparr>Passed := True, OptArg := ''a=b'', OptArgs := [''a=b'']\<rparr>)]\<rparr>\<rparr>) None
   \<and> loop (initFrame (demoWorld ())) [''--verbose=maybe''] =
     Done (initFrame (demoWorld ())) (Some (errPassedOptargToFlag ''verbose''))
   \<and> loop (initFrame (demoWorld ())) [''--colour=red''] =
     Done (initFrame (demoWorld ())) (Some (errUnrecognizedLong ''colour''))"
proof -
  let ?fr = "initFrame (demoWorld ()) :: unit frame"
  let ?f = "newFlagObj CHR ''v'' ''verbose'' ''Increase verbosity'' :: unit Flag"
  let ?o = "newOptionObj CHR ''f'' ''file'' ''Input file'' :: unit Option"
  have h: "\<not> expect_optarg ?fr" "CHR ''='' \<notin> set ''verbose''" "CHR ''='' \<notin> set ''file''"
    "CHR ''='' \<notin> set ''colour''"
    "paramsByLong (world ?fr) ''verbose'' = Some 0" "asFlag (world ?fr) 0 = Some ?f" "\<not> takesArg ?f"
    "paramsByLong (world ?fr) ''file'' = Some 1" "asOption (world ?fr) 1 = Some ?o" "takesArg ?o"
    "paramsByLong (world ?fr) ''colour'' = None"
    by (simp_all add: demoWorld_eq initFrame_def asFlag_def asOption_def newFlagObj_def newOptionObj_def)
  have s: "spellsTrue ''YeS''" "\<not> spellsTrue ''maybe''" "\<not> spellsFalse ''maybe''"
    by (simp_all add: spellsTrue_def spellsFalse_def foldASCII_def Let_def)
  have t: "''--verbose=YeS'' = ''--'' @ ''verbose'' @ ''='' @ ''YeS''"
    "''--file=a=b'' = ''--'' @ ''file'' @ ''='' @ ''a=b''"
    "''--verbose=maybe'' = ''--'' @ ''verbose'' @ ''='' @ ''maybe''"
    "''--colour=red'' = ''--'' @ ''colour'' @ ''='' @ ''red''"
    by simp_all
  note a = long_option_inline_value [where p = 1 and opt = ?o and q = 0 and f = ?f and args = "[]",
      OF h(1) h(2) t(1)]
  note b = long_option_inline_value [where p = 1 and opt = ?o and q = 0 and f = ?f and args = "[]",
      OF h(1) h(3) t(2)]
  note c = long_option_inline_value [where p = 1 and opt = ?o and q = 0 and f = ?f and args = "[]",
      OF h(1) h(2) t(3)]
  note d = long_option_inline_value [where p = 1 and opt = ?o and q = 0 and f = ?f and args = "[]",
      OF h(1) h(4) t(4)]
  have 1: "loop ?fr [''--verbose=YeS''] =
     Done (?fr\<lparr>world := (demoWorld ())
             \<lparr>heap := [FlagCell (?f\<lparr>Passed := True, Count := 1\<rparr>), OptionCell ?o]\<rparr>\<rparr>) None"
    using a h s by (simp add: demoWorld_eq initFrame_def takeValue_def newFlagObj_def Let_def)
  have 2: "loop ?fr [''--file=a=b''] =
     Done (?fr\<lparr>world := (demoWorld ())
             \<lparr>heap := [FlagCell ?f,
                       OptionCell (?o\<lparr>Passed := True, OptArg := ''a=b'', OptArgs := [''a=b'']\<rparr>)]\<rparr>\<rparr>) None"
    using b h by (simp add: demoWorld_eq initFrame_def addOptArg_def newOptionObj_def Let_def)
  have 3: "loop ?fr [''--verbose=maybe''] = Done ?fr (Some (errPassedOptargToFlag ''verbose''))"
    using c h s by simp
  have 4: "loop ?fr [''--colour=red''] = Done ?fr (Some (errUnrecognizedLong ''colour''))"
    using d h by simp
  show ?thesis using 1 2 3 4 by simp
qed

section \<open>Awaited values, errors and the end of the input\<close>

text \<open>
  A clump that returns an error has delivered to the Flags of the characters before the
  first one that does not resolve to a Flag, and to nothing else; so has a negated clump.
\<close>

lemma negClump_Return_exact:
  assumes "negClump fr arg j = Return fr' err"
  shows "deliverEach False (takeWhile (shortIsFlag (world fr)) (drop j arg)) (world fr) = Some (world fr')
     \<and> fr' = fr\<lparr>world := world fr'\<rparr>
     \<and> dropWhile (shortIsFlag (world fr)) (drop j arg) \<noteq> []"
proof -
  let ?P = "shortIsFlag (world fr)"
  let ?pre = "takeWhile ?P (drop j arg)" and ?post = "dropWhile ?P (drop j arg)"
  have s: "drop j arg = ?pre @ ?post" by simp
  have fl: "\<forall>c\<in>set ?pre. ?P c" by (auto dest: set_takeWhileD)
  from negClump_prefix [OF s fl] obtain w'
    where w': "deliverEach False ?pre (world fr) = Some w'"
      "negClump fr arg j = negClump (fr\<lparr>world := w'\<rparr>) arg (j + length ?pre)"
    by blast
  have dd: "drop (j + length ?pre) arg = ?post"
    using s by (metis add.commute append_eq_conv_conj drop_drop)
  show ?thesis
  proof (cases ?post)
    case Nil
    have "drop (j + length ?pre) arg = []" unfolding dd by (rule Nil)
    then have "length arg \<le> j + length ?pre" using drop_eq_Nil by blast
    then show ?thesis using assms w'(2) by (simp add: negClump_end)
  next
    case (Cons c post')
    have "\<not> ?P c" using hd_dropWhile [of ?P "drop j arg"] Cons by auto
    then have nf: "\<not> shortIsFlag (world (fr\<lparr>world := w'\<rparr>)) c"
      using deliverEach_short(1) [OF w'(1)] by simp
    have d1: "drop (j + length ?pre) arg = c # post'" using dd Cons by simp
    from negShort_not_flag [OF nf] have "fr' = fr\<lparr>world := w'\<rparr>"
    proof
      assume "negShort (fr\<lparr>world := w'\<rparr>) c = Panic"
      then have "negClump (fr\<lparr>world := w'\<rparr>) arg (j + length ?pre) = Panic"
        using drop_eq_ConsD [OF d1] by (subst negClump.simps) simp
      then show ?thesis using assms w'(2) by simp
    next
      assume "\<exists>e. negShort (fr\<lparr>world := w'\<rparr>) c = Return (fr\<lparr>world := w'\<rparr>) (Some e)"
      then obtain er where "negShort (fr\<lparr>world := w'\<rparr>) c = Return (fr\<lparr>world := w'\<rparr>) (Some er)"
        by blast
      from negClump_stop [OF d1 this] show ?thesis using assms w'(2) by simp
    qed
    then show ?thesis using w'(1) Cons by simp
  qed
qed

lemma clump_Return_exact:
  assumes "clump fr arg j = Return fr' err"
  shows "deliverEach True (takeWhile (shortIsFlag (world fr)) (drop j arg)) (world fr) = Some (world fr')
     \<and> fr' = fr\<lparr>world := world fr'\<rparr>
     \<and> dropWhile (shortIsFlag (world fr)) (drop j arg) \<noteq> []
     \<and> err = Some (errUnrecognizedShort (hd (dropWhile (shortIsFlag (world fr)) (drop j arg))))"
proof -
  let ?P = "shortIsFlag (world fr)"
  let ?pre = "takeWhile ?P (drop j arg)" and ?post = "dropWhile ?P (drop j arg)"
  have s: "drop j arg = ?pre @ ?post" by simp
  have fl: "\<forall>c\<in>set ?pre. ?P c" by (auto dest: set_takeWhileD)
  from clump_prefix [OF s fl] obtain w'
    where w': "deliverEach True ?pre (world fr) = Some w'"
      "clump fr arg j = clump (fr\<lparr>world := w'\<rparr>) arg (j + length ?pre)"
    by blast
  have dd: "drop (j + length ?pre) arg = ?post"
    using s by (metis add.commute append_eq_conv_conj drop_drop)
  show ?thesis
  proof (cases ?post)
    case Nil
    have "drop (j + length ?pre) arg = []" unfolding dd by (rule Nil)
    then have "length arg \<le> j + length ?pre" using drop_eq_Nil by blast
    then show ?thesis using assms w'(2) by (simp add: clump_end)
  next
    case (Cons c post')
    have "\<not> ?P c" using hd_dropWhile [of ?P "drop j arg"] Cons by auto
    then have nf: "\<not> shortIsFlag (world (fr\<lparr>world := w'\<rparr>)) c"
      using deliverEach_short(1) [OF w'(1)] by simp
    have d1: "drop (j + length ?pre) arg = c # post'" using dd Cons by simp
    have "fr' = fr\<lparr>world := w'\<rparr> \<and> err = Some (errUnrecognizedShort c)"
      using assms w'(2) clump_head [OF d1 nf]
      by (auto split: option.splits bool.splits if_splits)
    then show ?thesis using w'(1) Cons by simp
  qed
qed

lemma body_error_exact:
  assumes "body fr arg args = Return fr' (Some e)"
  shows "fr' = fr\<lparr>world := world fr'\<rparr>
     \<and> (if take 2 arg = ''--'' then Some (world fr)
         else deliverEach (hd arg = CHR ''-'') (takeWhile (shortIsFlag (world fr)) (tl arg)) (world fr))
        = Some (world fr')
     \<and> (take 2 arg \<noteq> ''--'' \<longrightarrow> dropWhile (shortIsFlag (world fr)) (tl arg) \<noteq> [])
     \<and> (take 2 arg \<noteq> ''--'' \<and> hd arg = CHR ''-'' \<longrightarrow>
           e = errUnrecognizedShort (hd (dropWhile (shortIsFlag (world fr)) (tl arg))))"
proof -
  have ne: "\<not> expect_optarg fr" using assms body_expect_no_Return by blast
  show ?thesis
  proof (cases "arg = [] \<or> arg = ''--'' \<or> positional arg")
    case True
    then have "body fr arg args \<noteq> Return fr' (Some e)"
      using ne by (subst body_cases) auto
    then show ?thesis using assms by simp
  next
    case False
    then have n: "arg \<noteq> []" "arg \<noteq> ''--''" "\<not> positional arg" by auto
    have "length arg \<noteq> 0" "length arg \<noteq> 1" using n(1,3) by (simp_all add: positional_def)
    then have l: "2 \<le> length arg" by linarith
    then obtain x c cs where a: "arg = x # c # cs"
      by (cases arg; cases "tl arg") auto
    have pm: "x = CHR ''-'' \<or> x = CHR ''+''" using n(3) l a by (auto simp: positional_def)
    show ?thesis
    proof (cases "x = CHR ''+''")
      case True
      have "body fr arg args = negClump fr arg 1"
        using body_plus [OF ne, of "c # cs" args] a True by simp
      then have "negClump fr arg 1 = Return fr' (Some e)" using assms by simp
      from negClump_Return_exact [OF this] show ?thesis using a True by (simp add: drop_Suc)
    next
      case False
      then have x: "x = CHR ''-''" using pm by simp
      show ?thesis
      proof (cases "c = CHR ''-''")
        case False
        have "body fr arg args = clump fr arg 1"
          using body_minus [OF ne False, of cs args] a x by simp
        then have "clump fr arg 1 = Return fr' (Some e)" using assms by simp
        from clump_Return_exact [OF this] show ?thesis using a x False by (simp add: drop_Suc)
      next
        case True
        then have cs: "cs \<noteq> []" using n(2) a x by auto
        then have l3: "length arg \<noteq> 2" using a by (cases cs) auto
        have "(if CHR ''='' \<notin> set arg then longOpt fr (drop 2 arg)
          else longOptArg fr (drop 2 (takeWhile (\<lambda>b. b \<noteq> CHR ''='') arg))
             (drop (length (takeWhile (\<lambda>b. b \<noteq> CHR ''='') arg) + 1) arg)) = Return fr' (Some e)"
          using assms ne n l3 a x True by (subst (asm) body_cases) simp
        then have "fr' = fr" by (auto split: if_splits dest: longOpt_Return longOptArg_Return)
        then show ?thesis using a x True by simp
      qed
    qed
  qed
qed

text \<open>
  Conversely, a clump whose first character that is not a Flag is unregistered fails
  there, after the deliveries to the Flags before it.
\<close>

lemma unrecognized_in_clump:
  assumes "\<not> expect_optarg fr" "\<forall>x\<in>set pre. shortIsFlag (world fr) x"
    "paramsByShort (world fr) c = None" "hd (pre @ [c]) \<noteq> CHR ''-''"
  shows "\<exists>w'. deliverEach True pre (world fr) = Some w'
     \<and> loop fr ((CHR ''-'' # pre @ c # post) # args) =
         Done (fr\<lparr>world := w'\<rparr>) (Some (errUnrecognizedShort c))"
proof -
  let ?arg = "CHR ''-'' # pre @ c # post"
  obtain d ds where ds: "pre @ c # post = d # ds" "d \<noteq> CHR ''-''"
    using assms(4) by (cases pre) auto
  have b: "body fr ?arg args = clump fr ?arg 1"
    using body_minus [OF assms(1) ds(2), of ds args] ds(1) by simp
  have "drop 1 ?arg = pre @ c # post" by simp
  from clump_prefix [OF this assms(2)] obtain w'
    where w': "deliverEach True pre (world fr) = Some w'"
      "clump fr ?arg 1 = clump (fr\<lparr>world := w'\<rparr>) ?arg (1 + length pre)"
    by blast
  have n: "paramsByShort (world (fr\<lparr>world := w'\<rparr>)) c = None"
    using deliverEach_frame [OF w'(1)] assms(3) by simp
  have "drop (1 + length pre) ?arg = c # post" by simp
  from clump_unknown [OF this n]
  have "clump fr ?arg 1 = Return (fr\<lparr>world := w'\<rparr>) (Some (errUnrecognizedShort c))"
    using w'(2) by simp
  then show ?thesis using w'(1) b by simp
qed

lemma body_awaiting:
  assumes "body fr arg args = Continue fr'" "expect_optarg fr'"
  shows "\<not> expect_optarg fr \<and> rest fr' = rest fr
     \<and> (\<exists>p opt. waiting_opt fr' = Some p \<and> asOption (world fr') p = Some opt \<and> takesArg opt)
     \<and> (\<forall>q. asOption (world fr') q = asOption (world fr) q)"
proof -
  have ne: "\<not> expect_optarg fr" using assms body_expect_Continue by blast
  have b: "(if arg = [] then Continue fr
      else if arg = ''--'' then Return (fold (\<lambda>a f. restArg f a True) args fr) None
      else if positional arg then Continue (restArg fr arg False)
      else if length arg = 2 \<and> arg ! 0 = CHR ''-'' then shortOpt fr (arg ! 1)
      else if length arg = 2 then negShort fr (arg ! 1)
      else if arg ! 0 = CHR ''+'' then negClump fr arg 1
      else if arg ! 1 \<noteq> CHR ''-'' then clump fr arg 1
      else if CHR ''='' \<notin> set arg then longOpt fr (drop 2 arg)
      else longOptArg fr (drop 2 (takeWhile (\<lambda>b. b \<noteq> CHR ''='') arg))
             (drop (length (takeWhile (\<lambda>b. b \<noteq> CHR ''='') arg) + 1) arg)) = Continue fr'"
    using assms(1) ne by (subst (asm) body_cases) simp
  have same: False if "expect_optarg fr' = expect_optarg fr"
    using that assms(2) ne by simp
  consider (s) "shortOpt fr (arg ! 1) = Continue fr'" | (c) "clump fr arg 1 = Continue fr'"
    | (l) "longOpt fr (drop 2 arg) = Continue fr'"
    using b same negShort_Continue [of fr "arg ! 1" fr'] negClump_Continue [of fr arg 1 fr']
      longOptArg_Continue [of fr _ _ fr'] restArg_expect [of fr arg False]
    by (auto split: if_splits)
  then have "rest fr' = rest fr
     \<and> (\<exists>p opt. waiting_opt fr' = Some p \<and> asOption (world fr') p = Some opt \<and> takesArg opt)
     \<and> (\<forall>q. asOption (world fr') q = asOption (world fr) q)"
  proof cases
    case s
    from shortOpt_awaiting [OF this assms(2) ne] show ?thesis .
  next
    case c
    from clump_awaiting [OF this assms(2) ne] show ?thesis .
  next
    case l
    from longOpt_awaiting [OF this assms(2) ne] show ?thesis .
  qed
  then show ?thesis using ne by blast
qed

text \<open>
  Claim C3: when the previous token left an argument-taking Option awaiting its value,
  there is exactly one such Option, the one \<open>waiting_opt\<close> points to, and the whole
  current token is delivered to it as its value, whatever the token looks like (empty,
  shaped like a short or long option, or \<open>--\<close>); nothing else is done with the token,
  and the loop goes on with no option awaiting.
\<close>

theorem pending_token_is_value:
  assumes "body fr0 arg0 args0 = Continue fr" and "expect_optarg fr"
  shows "\<exists>p opt. waiting_opt fr = Some p \<and> asOption (world fr) p = Some opt \<and> takesArg opt
     \<and> loop fr (arg # args) =
         loop (fr\<lparr>world := (world fr)
                   \<lparr>heap := (heap (world fr))[p := OptionCell (fst (addOptArg arg opt (user (world fr))))],
                    user := snd (addOptArg arg opt (user (world fr)))\<rparr>,
                 expect_optarg := False\<rparr>) args"
proof -
  from body_awaiting [OF assms] obtain p opt
    where p: "waiting_opt fr = Some p" "asOption (world fr) p = Some opt" "takesArg opt"
    by blast
  from body_pending [OF assms(2) p(1,2), of arg args]
  show ?thesis using p by simp
qed

theorem pending_token_is_value_witness:
  "body (initFrame (demoWorld ())) ''-f'' [] =
     Continue ((initFrame (demoWorld ()))\<lparr>waiting_opt := Some 1, expect_optarg := True\<rparr>)
   \<and> expect_optarg ((initFrame (demoWorld ()))\<lparr>waiting_opt := Some 1, expect_optarg := True\<rparr>)
   \<and> loop ((initFrame (demoWorld ()))\<lparr>waiting_opt := Some 1, expect_optarg := True\<rparr>) [''--'', ''-v''] =
       Done \<lparr>world = (demoWorld ())
               \<lparr>heap := [FlagCell ((newFlagObj CHR ''v'' ''verbose'' ''Increase verbosity'')
                                     \<lparr>Passed := True, Count := 1\<rparr>),
                         OptionCell ((newOptionObj CHR ''f'' ''file'' ''Input file'')
                            \<lparr>Passed := True, OptArg := ''--'', OptArgs := [''--'']\<rparr>)]\<rparr>,
             rest = [], expect_optarg = False, waiting_opt = Some 1\<rparr> None"
proof -
  let ?fr = "(initFrame (demoWorld ()))\<lparr>waiting_opt := Some 1, expect_optarg := True\<rparr>"
  have h1: "body (initFrame (demoWorld ())) ''-f'' [] = Continue ?fr"
    by (simp add: demo_eval)
  have h2: "expect_optarg ?fr" by simp
  from pending_token_is_value [where arg = "''--''" and args = "[''-v'']", OF h1 h2]
  obtain p opt where p: "waiting_opt ?fr = Some p" "asOption (world ?fr) p = Some opt"
    and l: "loop ?fr [''--'', ''-v''] =
         loop (?fr\<lparr>world := (world ?fr)
                   \<lparr>heap := (heap (world ?fr))[p := OptionCell (fst (addOptArg ''--'' opt (user (world ?fr))))],
                    user := snd (addOptArg ''--'' opt (user (world ?fr)))\<rparr>,
                 expect_optarg := False\<rparr>) [''-v'']"
    by blast
  have "p = 1" using p(1) by simp
  moreover have "opt = newOptionObj CHR ''f'' ''file'' ''Input file''"
    using p(2) \<open>p = 1\<close> by (simp add: demoWorld_eq initFrame_def asOption_def)
  ultimately show ?thesis using h1 h2 l by (simp add: demo_eval)
qed

text \<open>
  Claim C9: when the last token of the input leaves an Option awaiting its value,
  \<open>ArgParse\<close> returns without an error, and that last token has delivered nothing to
  any Option: every Option object, the awaited one included, is as it was before the
  token (history, most recent value and was-passed flag).
\<close>

theorem end_of_input_while_waiting:
  assumes "steps (initFrame w) pre [t] = Some fr" and "body fr t [] = Continue fr'"
    and "expect_optarg fr'"
  shows "ArgParse (prog # pre @ [t]) w = Done fr' None \<and> rest fr' = rest fr
     \<and> (\<exists>p opt. waiting_opt fr' = Some p \<and> asOption (world fr') p = Some opt
           \<and> asOption (world fr) p = Some opt)
     \<and> (\<forall>q. asOption (world fr') q = asOption (world fr) q)"
proof -
  have "loop (initFrame w) (pre @ [t]) = loop fr [t]"
    using loop_steps [OF assms(1)] .
  then have "ArgParse (prog # pre @ [t]) w = Done fr' None"
    using assms(2) by (simp add: ArgParse_def)
  moreover from body_awaiting [OF assms(2,3)] obtain p opt
    where "rest fr' = rest fr" "waiting_opt fr' = Some p" "asOption (world fr') p = Some opt"
      "\<forall>q. asOption (world fr') q = asOption (world fr) q"
    by blast
  ultimately show ?thesis by simp
qed

theorem end_of_input_while_waiting_witness:
  "steps (initFrame (demoWorld ())) [''-v''] [''--file''] =
     Some ((initFrame (demoWorld ()))
          \<lparr>world := (demoWorld ())
             \<lparr>heap := [FlagCell ((newFlagObj CHR ''v'' ''verbose'' ''Increase verbosity'')
                                   \<lparr>Passed := True, Count := 1\<rparr>),
                       OptionCell (newOptionObj CHR ''f'' ''file'' ''Input file'')]\<rparr>\<rparr>)
   \<and> ArgParse [''prog'', ''-v'', ''--file''] (demoWorld ()) =
     Done \<lparr>world = (demoWorld ())
             \<lparr>heap := [FlagCell ((newFlagObj CHR ''v'' ''verbose'' ''Increase verbosity'')
                                   \<lparr>Passed := True, Count := 1\<rparr>),
                       OptionCell (newOptionObj CHR ''f'' ''file'' ''Input file'')]\<rparr>,
           rest = [], expect_optarg = True, waiting_opt = Some 1\<rparr> None"
proof -
  let ?fr = "(initFrame (demoWorld ()))
          \<lparr>world := (demoWorld ())
             \<lparr>heap := [FlagCell ((newFlagObj CHR ''v'' ''verbose'' ''Increase verbosity'')
                                   \<lparr>Passed := True, Count := 1\<rparr>),
                       OptionCell (newOptionObj CHR ''f'' ''file'' ''Input file'')]\<rparr>\<rparr>"
  have h1: "steps (initFrame (demoWorld ())) [''-v''] [''--file''] = Some ?fr"
    by (simp add: demo_eval)
  have h2: "body ?fr ''--file'' [] = Continue (?fr\<lparr>waiting_opt := Some 1, expect_optarg := True\<rparr>)"
    by (simp add: demo_eval)
  have h3: "expect_optarg (?fr\<lparr>waiting_opt := Some 1, expect_optarg := True\<rparr>)" by simp
  from end_of_input_while_waiting [where prog = "''prog''", OF h1 h2 h3]
  show ?thesis using h1 by (simp add: demoWorld_eq initFrame_def)
qed

text \<open>
  Claim C4: when \<open>ArgParse\<close> returns an error, the input splits into tokens that were
  processed without a return, the failing token, and the tokens after it.  The result is
  the frame before the failing token, Rest entries included, with the deliveries that the
  failing token made before it failed, and nothing else: none for a long option; for a
  clump or a negated clump, true or false delivered to the Flag of each character that
  precedes the first character not resolving to a Flag, where the scan fails (for a clump,
  with the error that names that character as unrecognized).  So the deliveries of the
  earlier tokens and of the earlier characters of the failing token remain applied, the
  failing token changes no Option, and the result does not depend on the tokens after
  the failing token, none of which is read.
\<close>

theorem error_at_first_failing_token:
  assumes "ArgParse argv w = Done fr' (Some e)"
  shows "\<exists>pre t post fr1. drop 1 argv = pre @ t # post
     \<and> steps (initFrame w) pre (t # post) = Some fr1
     \<and> body fr1 t post = Return fr' (Some e)
     \<and> fr' = fr1\<lparr>world := world fr'\<rparr>
     \<and> rest fr' = rest fr1
     \<and> (if take 2 t = ''--'' then Some (world fr1)
         else deliverEach (hd t = CHR ''-'') (takeWhile (shortIsFlag (world fr1)) (tl t)) (world fr1))
        = Some (world fr')
     \<and> (take 2 t \<noteq> ''--'' \<and> hd t = CHR ''-'' \<longrightarrow>
           e = errUnrecognizedShort (hd (dropWhile (shortIsFlag (world fr1)) (tl t))))
     \<and> (\<forall>q. asOption (world fr') q = asOption (world fr1) q)
     \<and> (\<forall>post'. ArgParse (take 1 argv @ pre @ t # post') w = Done fr' (Some e))"
proof -
  from assms have "loop (initFrame w) (drop 1 argv) = Done fr' (Some e)"
    by (simp add: ArgParse_def)
  from loop_error_decomp [OF this] obtain pre t post fr1
    where d: "drop 1 argv = pre @ t # post" "steps (initFrame w) pre (t # post) = Some fr1"
      "body fr1 t post = Return fr' (Some e)"
    by blast
  from body_error_exact [OF d(3)] have f: "fr' = fr1\<lparr>world := world fr'\<rparr>"
    and c: "(if take 2 t = ''--'' then Some (world fr1)
         else deliverEach (hd t = CHR ''-'') (takeWhile (shortIsFlag (world fr1)) (tl t)) (world fr1))
        = Some (world fr')"
    and er: "take 2 t \<noteq> ''--'' \<and> hd t = CHR ''-'' \<longrightarrow>
           e = errUnrecognizedShort (hd (dropWhile (shortIsFlag (world fr1)) (tl t)))"
    by simp_all
  have r: "rest fr' = rest fr1" by (subst f) simp
  have o: "\<forall>q. asOption (world fr') q = asOption (world fr1) q"
  proof (cases "take 2 t = ''--''")
    case True
    then show ?thesis using c by simp
  next
    case False
    then have "deliverEach (hd t = CHR ''-'') (takeWhile (shortIsFlag (world fr1)) (tl t)) (world fr1)
        = Some (world fr')"
      using c by simp
    from deliverEach_frame [OF this] show ?thesis by simp
  qed
  have "ArgParse (take 1 argv @ pre @ t # post') w = Done fr' (Some e)" for post'
  proof -
    have ne: "argv \<noteq> []" using d(1) by auto
    then have "drop 1 (take 1 argv @ pre @ t # post') = pre @ t # post'"
      by (cases argv) simp_all
    moreover have "loop (initFrame w) (pre @ t # post') = loop fr1 (t # post')"
      using loop_steps [OF steps_args [OF d(2), of "t # post'"]] .
    moreover have "body fr1 t post' = Return fr' (Some e)"
      using body_error_args [OF d(3)] .
    ultimately show ?thesis by (simp add: ArgParse_def)
  qed
  then show ?thesis using d r c f er o by blast
qed


theorem error_at_first_failing_token_witness:
  "ArgParse [''prog'', ''x'', ''-v'', ''-vzv'', ''y''] (demoWorld ()) =
     Done \<lparr>world = (demoWorld ())
             \<lparr>heap := [FlagCell ((newFlagObj CHR ''v'' ''verbose'' ''Increase verbosity'')
                                   \<lparr>Passed := True, Count := 2\<rparr>),
                       OptionCell (newOptionObj CHR ''f'' ''file'' ''Input file'')]\<rparr>,
           rest = [\<lparr>Argument = ''x'', AfterDashes = False\<rparr>],
           expect_optarg = False, waiting_opt = None\<rparr>
       (Some (errUnrecognizedShort CHR ''z''))
   \<and> (\<exists>pre t post fr1. drop 1 [''prog'', ''x'', ''-v'', ''-vzv'', ''y''] = pre @ t # post
        \<and> steps (initFrame (demoWorld ())) pre (t # post) = Some fr1
        \<and> rest fr1 = [\<lparr>Argument = ''x'', AfterDashes = False\<rparr>]
        \<and> (if take 2 t = ''--'' then Some (world fr1)
            else deliverEach (hd t = CHR ''-'') (takeWhile (shortIsFlag (world fr1)) (tl t)) (world fr1))
           = Some ((demoWorld ())
                \<lparr>heap := [FlagCell ((newFlagObj CHR ''v'' ''verbose'' ''Increase verbosity'')
                                      \<lparr>Passed := True, Count := 2\<rparr>),
                          OptionCell (newOptionObj CHR ''f'' ''file'' ''Input file'')]\<rparr>)
        \<and> (\<forall>post'. ArgParse (take 1 [''prog'', ''x'', ''-v'', ''-vzv'', ''y''] @ pre @ t # post') (demoWorld ()) =
             Done \<lparr>world = (demoWorld ())
                     \<lparr>heap := [FlagCell ((newFlagObj CHR ''v'' ''verbose'' ''Increase verbosity'')
                                           \<lparr>Passed := True, Count := 2\<rparr>),
                               OptionCell (newOptionObj CHR ''f'' ''file'' ''Input file'')]\<rparr>,
                   rest = [\<lparr>Argument = ''x'', AfterDashes = False\<rparr>],
                   expect_optarg = False, waiting_opt = None\<rparr>
               (Some (errUnrecognizedShort CHR ''z''))))
   \<and> steps (initFrame (demoWorld ())) [''x'', ''-v''] [''-vzv'', ''y''] =
       Some \<lparr>world = (demoWorld ())
               \<lparr>heap := [FlagCell ((newFlagObj CHR ''v'' ''verbose'' ''Increase verbosity'')
                                     \<lparr>Passed := True, Count := 1\<rparr>),
                         OptionCell (newOptionObj CHR ''f'' ''file'' ''Input file'')]\<rparr>,
             rest = [\<lparr>Argument = ''x'', AfterDashes = False\<rparr>],
             expect_optarg = False, waiting_opt = None\<rparr>
   \<and> takeWhile (shortIsFlag ((demoWorld ())
               \<lparr>heap := [FlagCell ((newFlagObj CHR ''v'' ''verbose'' ''Increase verbosity'')
                                     \<lparr>Passed := True, Count := 1\<rparr>),
                         OptionCell (newOptionObj CHR ''f'' ''file'' ''Input file'')]\<rparr>)) ''vzv'' = ''v''"
proof -
  let ?fr' = "\<lparr>world = (demoWorld ())
             \<lparr>heap := [FlagCell ((newFlagObj CHR ''v'' ''verbose'' ''Increase verbosity'')
                                   \<lparr>Passed := True, Count := 2\<rparr>),
                       OptionCell (newOptionObj CHR ''f'' ''file'' ''Input file'')]\<rparr>,
           rest = [\<lparr>Argument = ''x'', AfterDashes = False\<rparr>],
           expect_optarg = False, waiting_opt = None\<rparr>"
  have h: "ArgParse [''prog'', ''x'', ''-v'', ''-vzv'', ''y''] (demoWorld ()) =
     Done ?fr' (Some (errUnrecognizedShort CHR ''z''))"
    by (simp add: demo_eval)
  from error_at_first_failing_token [OF h] obtain pre t post fr1
    where d: "drop 1 [''prog'', ''x'', ''-v'', ''-vzv'', ''y''] = pre @ t # post"
      "steps (initFrame (demoWorld ())) pre (t # post) = Some fr1"
      "rest ?fr' = rest fr1"
      "(if take 2 t = ''--'' then Some (world fr1)
        else deliverEach (hd t = CHR ''-'') (takeWhile (shortIsFlag (world fr1)) (tl t)) (world fr1))
       = Some (world ?fr')"
      "\<forall>post'. ArgParse (take 1 [''prog'', ''x'', ''-v'', ''-vzv'', ''y''] @ pre @ t # post') (demoWorld ()) =
         Done ?fr' (Some (errUnrecognizedShort CHR ''z''))"
    by blast
  have r: "rest fr1 = [\<lparr>Argument = ''x'', AfterDashes = False\<rparr>]" using d(3) by simp
  have w: "world ?fr' = (demoWorld ())
                \<lparr>heap := [FlagCell ((newFlagObj CHR ''v'' ''verbose'' ''Increase verbosity'')
                                      \<lparr>Passed := True, Count := 2\<rparr>),
                          OptionCell (newOptionObj CHR ''f'' ''file'' ''Input file'')]\<rparr>"
    by simp
  have ex: "\<exists>pre t post fr1. drop 1 [''prog'', ''x'', ''-v'', ''-vzv'', ''y''] = pre @ t # post
        \<and> steps (initFrame (demoWorld ())) pre (t # post) = Some fr1
        \<and> rest fr1 = [\<lparr>Argument = ''x'', AfterDashes = False\<rparr>]
        \<and> (if take 2 t = ''--'' then Some (world fr1)
            else deliverEach (hd t = CHR ''-'') (takeWhile (shortIsFlag (world fr1)) (tl t)) (world fr1))
           = Some ((demoWorld ())
                \<lparr>heap := [FlagCell ((newFlagObj CHR ''v'' ''verbose'' ''Increase verbosity'')
                                      \<lparr>Passed := True, Count := 2\<rparr>),
                          OptionCell (newOptionObj CHR ''f'' ''file'' ''Input file'')]\<rparr>)
        \<and> (\<forall>post'. ArgParse (take 1 [''prog'', ''x'', ''-v'', ''-vzv'', ''y''] @ pre @ t # post') (demoWorld ()) =
             Done ?fr' (Some (errUnrecognizedShort CHR ''z'')))"
    using d(1,2,5) r d(4) [unfolded w] by blast
  have st: "steps (initFrame (demoWorld ())) [''x'', ''-v''] [''-vzv'', ''y''] =
       Some \<lparr>world = (demoWorld ())
               \<lparr>heap := [FlagCell ((newFlagObj CHR ''v'' ''verbose'' ''Increase verbosity'')
                                     \<lparr>Passed := True, Count := 1\<rparr>),
                         OptionCell (newOptionObj CHR ''f'' ''file'' ''Input file'')]\<rparr>,
             rest = [\<lparr>Argument = ''x'', AfterDashes = False\<rparr>],
             expect_optarg = False, waiting_opt = None\<rparr>"
    by (simp add: demo_eval)
  have tw: "takeWhile (shortIsFlag ((demoWorld ())
               \<lparr>heap := [FlagCell ((newFlagObj CHR ''v'' ''verbose'' ''Increase verbosity'')
                                     \<lparr>Passed := True, Count := 1\<rparr>),
                         OptionCell (newOptionObj CHR ''f'' ''file'' ''Input file'')]\<rparr>)) ''vzv'' = ''v''"
    by (simp add: demoWorld_eq shortIsFlag_def isFlag_def asFlag_def newFlagObj_def)
  show ?thesis using h ex st tw by simp
qed

section \<open>The history of an Option\<close>

text \<open>
  A delivery through a pointer replaces the object in the heap, and leaves the other
  objects as they are.
\<close>

lemma asOption_iff:
  "asOption w p = Some opt \<longleftrightarrow> p < length (heap w) \<and> heap w ! p = OptionCell opt"
  by (auto simp: asOption_def split: cell.splits)

lemma addOptArgAt_asOption:
  assumes "asOption w p = Some opt" "addOptArgAt p a w = Some w'"
  shows "asOption w' q = (if q = p then Some (fst (addOptArg a opt (user w))) else asOption w q)"
proof -
  have lt: "p < length (heap w)" using assms(1) by (simp add: asOption_iff)
  have "w' = w\<lparr>heap := (heap w)[p := OptionCell (fst (addOptArg a opt (user w)))],
            user := snd (addOptArg a opt (user w))\<rparr>"
    using assms(2) addOptArgAt_Some [OF assms(1), of a] by simp
  then show ?thesis using lt by (simp add: asOption_def)
qed

lemma addOptArgsAt_Some:
  assumes "asOption w p = Some opt"
  shows "addOptArgsAt p as w =
     Some (w\<lparr>heap := (heap w)[p := OptionCell (fst (addOptArgs as opt (user w)))],
            user := snd (addOptArgs as opt (user w))\<rparr>)"
  using assms
proof (induction as arbitrary: w opt)
  case Nil
  then have "(heap w)[p := OptionCell opt] = heap w"
    by (simp add: asOption_iff list_update_same_conv)
  then show ?case by simp
next
  case (Cons a as)
  let ?o1 = "fst (addOptArg a opt (user w))" and ?u1 = "snd (addOptArg a opt (user w))"
  let ?w1 = "w\<lparr>heap := (heap w)[p := OptionCell ?o1], user := ?u1\<rparr>"
  have lt: "p < length (heap w)" using Cons.prems by (simp add: asOption_iff)
  have 1: "addOptArgAt p a w = Some ?w1" by (rule addOptArgAt_Some [OF Cons.prems])
  have 2: "asOption ?w1 p = Some ?o1" using lt by (simp add: asOption_def)
  show ?case
    unfolding addOptArgsAt.simps 1 option.case Cons.IH [OF 2]
    by (simp split: prod.splits)
qed

lemma addOptArgsAt_asOption:
  assumes "asOption w p = Some opt"
  shows "\<exists>w'. addOptArgsAt p as w = Some w'
     \<and> asOption w' p = Some (fst (addOptArgs as opt (user w)))
     \<and> (\<forall>q. q \<noteq> p \<longrightarrow> asOption w' q = asOption w q)
     \<and> (\<forall>q. asFlag w' q = asFlag w q)"
proof -
  have lt: "p < length (heap w)" and c: "heap w ! p = OptionCell opt"
    using assms by (simp_all add: asOption_iff)
  have "asFlag (w\<lparr>heap := (heap w)[p := OptionCell x], user := u\<rparr>) q = asFlag w q" for x u q
    using lt c by (cases "q = p") (simp_all add: asFlag_def)
  then show ?thesis
    unfolding addOptArgsAt_Some [OF assms, of as] using lt by (simp add: asOption_def)
qed

text \<open>The invariant, read through the pointers.\<close>

lemma historyKept_iff:
  "historyKept w \<longleftrightarrow> (\<forall>q opt. asOption w q = Some opt \<longrightarrow> Passed opt \<longrightarrow> OptArgs opt \<noteq> [])"
proof
  assume h: "historyKept w"
  show "\<forall>q opt. asOption w q = Some opt \<longrightarrow> Passed opt \<longrightarrow> OptArgs opt \<noteq> []"
  proof (intro allI impI)
    fix q opt
    assume a: "asOption w q = Some opt" "Passed opt"
    then have "q < length (heap w)" "heap w ! q = OptionCell opt" by (simp_all add: asOption_iff)
    then show "OptArgs opt \<noteq> []"
      using h a(2) by (auto simp: historyKept_def list_all_length)
  qed
next
  assume h: "\<forall>q opt. asOption w q = Some opt \<longrightarrow> Passed opt \<longrightarrow> OptArgs opt \<noteq> []"
  show "historyKept w"
    unfolding historyKept_def list_all_length
  proof (intro allI impI)
    fix n
    assume n: "n < length (heap w)"
    show "case heap w ! n of FlagCell f \<Rightarrow> True
          | OptionCell opt \<Rightarrow> Passed opt \<longrightarrow> OptArgs opt \<noteq> []"
    proof (cases "heap w ! n")
      case (FlagCell f)
      then show ?thesis by simp
    next
      case (OptionCell opt)
      then have "asOption w n = Some opt" using n by (simp add: asOption_iff)
      then show ?thesis using h OptionCell by auto
    qed
  qed
qed

lemma historyKept_cong:
  assumes "historyKept w" "\<And>q. asOption w' q = asOption w q"
  shows "historyKept w'"
  using assms by (simp add: historyKept_iff)

lemma historyKept_takeValueAt:
  "historyKept w \<Longrightarrow> takeValueAt p v w = Some w' \<Longrightarrow> historyKept w'"
  using takeValueAt_frame(5) [of p v w w'] by (auto intro: historyKept_cong)

lemma historyKept_addOptArgAt:
  assumes "historyKept w" "addOptArgAt p a w = Some w'"
  shows "historyKept w'"
proof -
  from assms(2) obtain opt where o: "asOption w p = Some opt"
    by (auto simp: addOptArgAt_def split: option.splits)
  have "OptArgs (fst (addOptArg a opt (user w))) \<noteq> []"
    using addOptArg_fields(1) [of a opt "user w"] by simp
  then show ?thesis
    using assms(1) addOptArgAt_asOption [OF o assms(2)] by (simp add: historyKept_iff)
qed

lemma historyKept_restArg: "historyKept (world fr) \<Longrightarrow> historyKept (world (restArg fr a d))"
  by (simp add: restArg_eq historyKept_def)

lemma historyKept_fold_restArg:
  "historyKept (world fr) \<Longrightarrow> historyKept (world (fold (\<lambda>a f. restArg f a d) args fr))"
  by (simp add: fold_restArg historyKept_def)

lemma historyKept_step:
  assumes "historyKept w"
    "w' = w \<or> (\<exists>p v. takeValueAt p v w = Some w') \<or> (\<exists>p a. addOptArgAt p a w = Some w')"
  shows "historyKept w'"
  using assms historyKept_takeValueAt historyKept_addOptArgAt by blast

lemma shortOpt_world:
  assumes "shortOpt fr c = Continue fr' \<or> shortOpt fr c = Return fr' err"
  shows "world fr' = world fr \<or> (\<exists>p v. takeValueAt p v (world fr) = Some (world fr'))
     \<or> (\<exists>p a. addOptArgAt p a (world fr) = Some (world fr'))"
  using assms by (auto simp: shortOpt_def split: option.splits bool.splits)

lemma negShort_world:
  assumes "negShort fr c = Continue fr' \<or> negShort fr c = Return fr' err"
  shows "world fr' = world fr \<or> (\<exists>p v. takeValueAt p v (world fr) = Some (world fr'))
     \<or> (\<exists>p a. addOptArgAt p a (world fr) = Some (world fr'))"
  using assms by (auto simp: negShort_def split: option.splits bool.splits)

lemma longOpt_world:
  assumes "longOpt fr l = Continue fr' \<or> longOpt fr l = Return fr' err"
  shows "world fr' = world fr \<or> (\<exists>p v. takeValueAt p v (world fr) = Some (world fr'))
     \<or> (\<exists>p a. addOptArgAt p a (world fr) = Some (world fr'))"
  using assms by (auto simp: longOpt_def split: option.splits bool.splits)

lemma longOptArg_world:
  assumes "longOptArg fr l a = Continue fr' \<or> longOptArg fr l a = Return fr' err"
  shows "world fr' = world fr \<or> (\<exists>p v. takeValueAt p v (world fr) = Some (world fr'))
     \<or> (\<exists>p a. addOptArgAt p a (world fr) = Some (world fr'))"
  using assms by (auto simp: longOptArg_def split: option.splits bool.splits sum.splits)

lemma historyKept_shortOpt:
  assumes "historyKept (world fr)" "shortOpt fr c = Continue fr' \<or> shortOpt fr c = Return fr' err"
  shows "historyKept (world fr')"
  using historyKept_step [OF assms(1) shortOpt_world [OF assms(2)]] .

lemma historyKept_negShort:
  assumes "historyKept (world fr)" "negShort fr c = Continue fr' \<or> negShort fr c = Return fr' err"
  shows "historyKept (world fr')"
  using historyKept_step [OF assms(1) negShort_world [OF assms(2)]] .

lemma historyKept_longOpt:
  assumes "historyKept (world fr)" "longOpt fr l = Continue fr' \<or> longOpt fr l = Return fr' err"
  shows "historyKept (world fr')"
  using historyKept_step [OF assms(1) longOpt_world [OF assms(2)]] .

lemma historyKept_longOptArg:
  assumes "historyKept (world fr)"
    "longOptArg fr l a = Continue fr' \<or> longOptArg fr l a = Return fr' err"
  shows "historyKept (world fr')"
  using historyKept_step [OF assms(1) longOptArg_world [OF assms(2)]] .

lemma historyKept_deliverEach:
  "historyKept w \<Longrightarrow> deliverEach v cs w = Some w' \<Longrightarrow> historyKept w'"
  using deliverEach_frame [of v cs w w'] by (auto intro: historyKept_cong)

lemma historyKept_negClump:
  assumes "historyKept (world fr)"
    "negClump fr arg j = Continue fr' \<or> negClump fr arg j = Return fr' err"
  shows "historyKept (world fr')"
proof -
  from negClump_outcome [of fr arg j] assms(2) obtain pre w'
    where "deliverEach False pre (world fr) = Some w'" "fr' = fr\<lparr>world := w'\<rparr>"
    by auto
  then show ?thesis using historyKept_deliverEach [OF assms(1)] by simp
qed

lemma historyKept_clump:
  assumes "historyKept (world fr)"
    "clump fr arg j = Continue fr' \<or> clump fr arg j = Return fr' err"
  shows "historyKept (world fr')"
  using assms
proof (induction fr arg j rule: clump.induct)
  case (1 fr arg j)
  show ?case
  proof (cases "j < length arg")
    case False
    then show ?thesis using "1.prems" by (subst (asm) (1 2) clump.simps) auto
  next
    case lt: True
    show ?thesis
    proof (cases "paramsByShort (world fr) (arg ! j)")
      case None
      then show ?thesis using "1.prems" lt by (subst (asm) (1 2) clump.simps) auto
    next
      case (Some p)
      show ?thesis
      proof (cases "takesArgument (world fr) p")
        case None
        then show ?thesis using "1.prems" lt Some by (subst (asm) (1 2) clump.simps) auto
      next
        case ta: (Some b)
        show ?thesis
        proof (cases b)
          case True
          show ?thesis
          proof (cases "j < length arg - 1")
            case True
            then show ?thesis
              using "1.prems" lt Some ta \<open>b\<close>
                historyKept_addOptArgAt [of "world fr" p "drop j arg"]
              by (subst (asm) (1 2) clump.simps) (auto split: option.splits)
          next
            case False
            show ?thesis
            proof (cases "asOption (world fr) p")
              case None
              then show ?thesis
                using "1.prems" lt Some ta \<open>b\<close> False
                by (subst (asm) (1 2) clump.simps) auto
            next
              case o: (Some opt)
              have "clump fr arg j =
                  clump (fr\<lparr>waiting_opt := Some p, expect_optarg := True\<rparr>) arg (j + 1)"
                using lt Some ta \<open>b\<close> False o by (subst clump.simps) simp
              then show ?thesis
                using "1.IH"(1) [OF lt Some ta _ False o] \<open>b\<close> "1.prems" by simp
            qed
          qed
        next
          case False
          show ?thesis
          proof (cases "takeValueAt p True (world fr)")
            case None
            then show ?thesis
              using "1.prems" lt Some ta False by (subst (asm) (1 2) clump.simps) auto
          next
            case tv: (Some w1)
            have "clump fr arg j = clump (fr\<lparr>world := w1\<rparr>) arg (j + 1)"
              using lt Some ta False tv by (subst clump.simps) simp
            moreover have "historyKept w1" using historyKept_takeValueAt [OF "1.prems"(1) tv] .
            ultimately show ?thesis
              using "1.IH"(2) [OF lt Some ta _ tv] False "1.prems" by simp
          qed
        qed
      qed
    qed
  qed
qed

lemma historyKept_body:
  assumes "historyKept (world fr)"
    "body fr arg args = Continue fr' \<or> body fr arg args = Return fr' err"
  shows "historyKept (world fr')"
proof (cases "expect_optarg fr")
  case True
  then show ?thesis
    using assms historyKept_addOptArgAt [of "world fr" _ arg]
    by (auto simp: body_def split: option.splits)
next
  case False
  note k = assms(1)
  show ?thesis
    using assms(2) False k
      historyKept_restArg [OF k, of arg False] historyKept_fold_restArg [OF k, of True args]
      historyKept_shortOpt [OF k, of "arg ! 1" fr' err] historyKept_negShort [OF k, of "arg ! 1" fr' err]
      historyKept_longOpt [OF k, of _ fr' err] historyKept_longOptArg [OF k, of _ _ fr' err]
      historyKept_clump [OF k, of arg 1 fr' err] historyKept_negClump [OF k, of arg 1 fr' err]
    by (subst (asm) (1 2) body_cases) (auto split: if_splits)
qed

lemma historyKept_loop:
  "historyKept (world fr) \<Longrightarrow> loop fr ts = Done fr' err \<Longrightarrow> historyKept (world fr')"
proof (induction ts arbitrary: fr)
  case Nil
  then show ?case by simp
next
  case (Cons a ts)
  show ?case
  proof (cases "body fr a ts")
    case (Continue fr1)
    then have "historyKept (world fr1)" using historyKept_body [OF Cons.prems(1)] by blast
    from Cons.IH [OF this] show ?thesis using Cons.prems(2) Continue by simp
  next
    case (Return fr1 e1)
    then have "historyKept (world fr1)" using historyKept_body [OF Cons.prems(1)] by blast
    then show ?thesis using Cons.prems(2) Return by simp
  next
    case Panic
    then show ?thesis using Cons.prems(2) by simp
  qed
qed

lemma historyKept_ArgParse:
  "historyKept w \<Longrightarrow> ArgParse argv w = Done fr err \<Longrightarrow> historyKept (world fr)"
  using historyKept_loop [of "initFrame w" "drop 1 argv" fr err]
  by (simp add: ArgParse_def initFrame_def)

lemma historyKept_emptyWorld: "historyKept (emptyWorld u)"
  by (simp add: historyKept_def emptyWorld_def)

lemma historyKept_resetParams: "historyKept (resetParams w) = historyKept w"
  by (simp add: historyKept_def resetParams_def)

lemma historyKept_constructors:
  "historyKept w \<Longrightarrow> NewFlag s l h w = Some (p, w') \<Longrightarrow> historyKept w'"
  "historyKept w \<Longrightarrow> NewFlagShort s h w = Some (p, w') \<Longrightarrow> historyKept w'"
  "historyKept w \<Longrightarrow> NewFlagLong l h w = Some (p, w') \<Longrightarrow> historyKept w'"
  "historyKept w \<Longrightarrow> NewOption s l h w = Some (p, w') \<Longrightarrow> historyKept w'"
  "historyKept w \<Longrightarrow> NewOptionShort s h w = Some (p, w') \<Longrightarrow> historyKept w'"
  "historyKept w \<Longrightarrow> NewOptionLong l h w = Some (p, w') \<Longrightarrow> historyKept w'"
  by (auto simp: historyKept_def NewFlag_def NewFlagShort_def NewFlagLong_def NewOption_def
      NewOptionShort_def NewOptionLong_def newOptionObj_def Let_def split: if_splits)

lemma NewOption_fresh:
  assumes "NewOption s l h w0 = Some (p, w)"
  shows "asOption w p = Some (newOptionObj s l h)" "paramsByShort w s = Some p"
    "paramsByLong w l = Some p"
  using assms by (auto simp: NewOption_def Let_def asOption_def split: if_splits)

text \<open>The run \<open>-c a -c b\<close> through the parser is the two deliveries.\<close>

lemma parse_two_values:
  assumes "asOption w p = Some opt" "takesArg opt" "paramsByShort w c = Some p" "c \<noteq> CHR ''-''"
  shows "\<exists>w'. addOptArgsAt p [a, b] w = Some w'
     \<and> ArgParse [prog, [CHR ''-'', c], a, [CHR ''-'', c], b] w =
         Done \<lparr>world = w', rest = [], expect_optarg = False, waiting_opt = Some p\<rparr> None"
proof -
  let ?o1 = "fst (addOptArg a opt (user w))" and ?u1 = "snd (addOptArg a opt (user w))"
  let ?w1 = "w\<lparr>heap := (heap w)[p := OptionCell ?o1], user := ?u1\<rparr>"
  have lt: "p < length (heap w)" using assms(1) by (simp add: asOption_iff)
  have 1: "addOptArgAt p a w = Some ?w1" by (rule addOptArgAt_Some [OF assms(1)])
  have o1: "asOption ?w1 p = Some ?o1" using lt by (simp add: asOption_def)
  have t1: "takesArg ?o1" using assms(2) by (simp add: addOptArg_takesArg)
  obtain w2 where 2: "addOptArgAt p b ?w1 = Some w2"
    using addOptArgAt_Some [OF o1, of b] by blast
  have s0: "shortOpt fr c = Continue (fr\<lparr>waiting_opt := Some p, expect_optarg := True\<rparr>)"
    if "world fr = w" for fr :: "'a frame"
    using that assms asOption_takesArgument [OF assms(1)] by (simp add: shortOpt_def)
  have s1: "shortOpt fr c = Continue (fr\<lparr>waiting_opt := Some p, expect_optarg := True\<rparr>)"
    if "world fr = ?w1" for fr :: "'a frame"
    using that assms(3) o1 t1 asOption_takesArgument [OF o1] by (simp add: shortOpt_def)
  have b0: "body fr [CHR ''-'', c] args = shortOpt fr c" if "\<not> expect_optarg fr"
    for fr :: "'a frame" and args
    using that assms(4) by (simp add: body_def)
  have pend: "body fr x args = Continue (fr\<lparr>world := w', expect_optarg := False\<rparr>)"
    if "expect_optarg fr" "waiting_opt fr = Some p" "addOptArgAt p x (world fr) = Some w'"
    for fr :: "'a frame" and x args w'
    using that by (simp add: body_def)
  let ?frA = "\<lparr>world = w, rest = [], expect_optarg = True, waiting_opt = Some p\<rparr>"
  let ?frB = "\<lparr>world = ?w1, rest = [], expect_optarg = False, waiting_opt = Some p\<rparr>"
  let ?frC = "\<lparr>world = ?w1, rest = [], expect_optarg = True, waiting_opt = Some p\<rparr>"
  let ?frD = "\<lparr>world = w2, rest = [], expect_optarg = False, waiting_opt = Some p\<rparr>"
  have A: "body (initFrame w) [CHR ''-'', c] args = Continue ?frA" for args
    using b0 [of "initFrame w" args] s0 [of "initFrame w"] by (simp add: initFrame_def)
  have B: "body ?frA a args = Continue ?frB" for args
    using pend [of ?frA a ?w1 args] 1 by simp
  have C: "body ?frB [CHR ''-'', c] args = Continue ?frC" for args
    using b0 [of ?frB args] s1 [of ?frB] by simp
  have D: "body ?frC b args = Continue ?frD" for args
    using pend [of ?frC b w2 args] 2 by simp
  have "ArgParse [prog, [CHR ''-'', c], a, [CHR ''-'', c], b] w = Done ?frD None"
    by (simp add: ArgParse_def A B C D)
  moreover have "addOptArgsAt p [a, b] w = Some w2" using 1 2 by simp
  ultimately show ?thesis by blast
qed


text \<open>
  Claim C6: for every declared Option, that is for every pointer \<open>p\<close> to an Option
  object, the delivery of a value to \<open>p\<close> appends the value to \<open>OptArgs\<close> of that
  object, overwrites its \<open>OptArg\<close> and sets its \<open>Passed\<close>, and leaves every other Option
  as it is.  Hence a sequence of deliveries extends \<open>OptArgs\<close> by the values, in order
  and with duplicates, and leaves the last value in \<open>OptArg\<close>; the parse of
  \<open>-c a -c b\<close> is the delivery of \<open>a\<close> then \<open>b\<close> to the Option that \<open>c\<close> names, after
  which \<open>OptArg\<close> is \<open>b\<close> and \<open>OptArgs\<close> has grown by \<open>[a, b]\<close>; an Option returned by
  \<open>NewOption\<close> is not passed and has an empty history; and after a parse from a state
  in which every passed Option has a history, every passed Option has a history.
\<close>

theorem Option_history:
  assumes "asOption w p = Some opt"
  shows "(\<exists>w' opt'. addOptArgAt p a w = Some w' \<and> asOption w' p = Some opt'
            \<and> OptArgs opt' = OptArgs opt @ [a] \<and> OptArg opt' = a \<and> Passed opt'
            \<and> (\<forall>q. q \<noteq> p \<longrightarrow> asOption w' q = asOption w q))
     \<and> (\<exists>w' opt'. addOptArgsAt p as w = Some w' \<and> asOption w' p = Some opt'
            \<and> OptArgs opt' = OptArgs opt @ as
            \<and> (as \<noteq> [] \<longrightarrow> OptArg opt' = last as \<and> Passed opt')
            \<and> (as = [] \<longrightarrow> opt' = opt))
     \<and> (takesArg opt \<and> paramsByShort w c = Some p \<and> c \<noteq> CHR ''-'' \<longrightarrow>
           (\<exists>w' opt'. addOptArgsAt p [a, b] w = Some w'
              \<and> ArgParse [prog, [CHR ''-'', c], a, [CHR ''-'', c], b] w =
                  Done \<lparr>world = w', rest = [], expect_optarg = False, waiting_opt = Some p\<rparr> None
              \<and> asOption w' p = Some opt' \<and> OptArg opt' = b
              \<and> OptArgs opt' = OptArgs opt @ [a, b] \<and> Passed opt'))
     \<and> (NewOption s l h w0 = Some (p, w) \<longrightarrow>
           OptArgs opt = [] \<and> \<not> Passed opt \<and> takesArg opt \<and> paramsByShort w s = Some p
           \<and> (historyKept w0 \<longrightarrow> historyKept w))
     \<and> (historyKept w \<and> ArgParse argv w = Done fr err \<longrightarrow>
           (\<forall>q opt'. asOption (world fr) q = Some opt' \<longrightarrow> Passed opt' \<longrightarrow> OptArgs opt' \<noteq> []))"
proof -
  have c1: "\<exists>w' opt'. addOptArgAt p a w = Some w' \<and> asOption w' p = Some opt'
            \<and> OptArgs opt' = OptArgs opt @ [a] \<and> OptArg opt' = a \<and> Passed opt'
            \<and> (\<forall>q. q \<noteq> p \<longrightarrow> asOption w' q = asOption w q)"
  proof -
    obtain w' where w': "addOptArgAt p a w = Some w'"
      using addOptArgAt_Some [OF assms, of a] by blast
    note ao = addOptArgAt_asOption [OF assms w']
    show ?thesis
      using w' ao addOptArg_fields(1,2,3) [of a opt "user w"]
      by (intro exI [of _ w'] exI [of _ "fst (addOptArg a opt (user w))"]) simp_all
  qed
  have seq: "\<exists>w' opt'. addOptArgsAt p xs w = Some w' \<and> asOption w' p = Some opt'
            \<and> OptArgs opt' = OptArgs opt @ xs
            \<and> (xs \<noteq> [] \<longrightarrow> OptArg opt' = last xs \<and> Passed opt')
            \<and> (xs = [] \<longrightarrow> opt' = opt)" for xs
  proof -
    from addOptArgsAt_asOption [OF assms, of xs] obtain w'
      where w': "addOptArgsAt p xs w = Some w'"
        "asOption w' p = Some (fst (addOptArgs xs opt (user w)))"
      by blast
    show ?thesis
      using w' addOptArgs_OptArgs [of xs opt "user w"] addOptArgs_last [of xs opt "user w"]
      by (intro exI [of _ w'] exI [of _ "fst (addOptArgs xs opt (user w))"]) auto
  qed
  have c3: "\<exists>w' opt'. addOptArgsAt p [a, b] w = Some w'
              \<and> ArgParse [prog, [CHR ''-'', c], a, [CHR ''-'', c], b] w =
                  Done \<lparr>world = w', rest = [], expect_optarg = False, waiting_opt = Some p\<rparr> None
              \<and> asOption w' p = Some opt' \<and> OptArg opt' = b
              \<and> OptArgs opt' = OptArgs opt @ [a, b] \<and> Passed opt'"
    if h: "takesArg opt" "paramsByShort w c = Some p" "c \<noteq> CHR ''-''"
  proof -
    from parse_two_values [OF assms h, of a b prog] obtain w'
      where w': "addOptArgsAt p [a, b] w = Some w'"
        "ArgParse [prog, [CHR ''-'', c], a, [CHR ''-'', c], b] w =
           Done \<lparr>world = w', rest = [], expect_optarg = False, waiting_opt = Some p\<rparr> None"
      by blast
    from seq [of "[a, b]"] w'(1) obtain opt'
      where "asOption w' p = Some opt'" "OptArgs opt' = OptArgs opt @ [a, b]"
        "OptArg opt' = b" "Passed opt'"
      by auto
    then show ?thesis using w' by blast
  qed
  have c4: "OptArgs opt = [] \<and> \<not> Passed opt \<and> takesArg opt \<and> paramsByShort w s = Some p
           \<and> (historyKept w0 \<longrightarrow> historyKept w)"
    if h: "NewOption s l h w0 = Some (p, w)"
  proof -
    have "opt = newOptionObj s l h" using NewOption_fresh(1) [OF h] assms by simp
    then show ?thesis
      using NewOption_fresh(2) [OF h] historyKept_constructors(4) [OF _ h]
      by (auto simp: newOptionObj_def)
  qed
  have c5: "\<forall>q opt'. asOption (world fr) q = Some opt' \<longrightarrow> Passed opt' \<longrightarrow> OptArgs opt' \<noteq> []"
    if "historyKept w \<and> ArgParse argv w = Done fr err"
    using historyKept_ArgParse [of w argv fr err] that by (simp add: historyKept_iff)
  show ?thesis using c1 seq [of as] c3 c4 c5 by blast
qed

theorem Option_history_witness:
  "asOption (demoWorld ()) 1 = Some (newOptionObj CHR ''f'' ''file'' ''Input file'')
   \<and> NewOption CHR ''f'' ''file'' ''Input file''
        (snd (the (NewFlag CHR ''v'' ''verbose'' ''Increase verbosity'' (emptyWorld ()))))
       = Some (1, demoWorld ())
   \<and> historyKept (demoWorld ())
   \<and> (\<exists>w' opt'. addOptArgAt 1 ''a'' (demoWorld ()) = Some w' \<and> asOption w' 1 = Some opt'
         \<and> OptArgs opt' = [''a''] \<and> OptArg opt' = ''a'' \<and> Passed opt'
         \<and> asOption w' 0 = None)
   \<and> (\<exists>w' opt'. addOptArgsAt 1 [''a'', ''b'', ''a''] (demoWorld ()) = Some w'
         \<and> asOption w' 1 = Some opt'
         \<and> OptArgs opt' = [''a'', ''b'', ''a''] \<and> OptArg opt' = ''a'' \<and> Passed opt')
   \<and> (\<exists>w' opt'. ArgParse [''prog'', ''-f'', ''a'', ''-f'', ''b''] (demoWorld ()) =
           Done \<lparr>world = w', rest = [], expect_optarg = False, waiting_opt = Some 1\<rparr> None
         \<and> asOption w' 1 = Some opt'
         \<and> OptArg opt' = ''b'' \<and> OptArgs opt' = [''a'', ''b''] \<and> Passed opt')
   \<and> ArgParse [''prog'', ''--file=x'', ''-vf''] (demoWorld ()) =
       Done \<lparr>world = (demoWorld ())
               \<lparr>heap := [FlagCell ((newFlagObj CHR ''v'' ''verbose'' ''Increase verbosity'')
                                     \<lparr>Passed := True, Count := 1\<rparr>),
                         OptionCell ((newOptionObj CHR ''f'' ''file'' ''Input file'')
                            \<lparr>Passed := True, OptArg := ''x'', OptArgs := [''x'']\<rparr>)]\<rparr>,
             rest = [], expect_optarg = True, waiting_opt = Some 1\<rparr> None
   \<and> (\<exists>opt'. asOption ((demoWorld ())
               \<lparr>heap := [FlagCell ((newFlagObj CHR ''v'' ''verbose'' ''Increase verbosity'')
                                     \<lparr>Passed := True, Count := 1\<rparr>),
                         OptionCell ((newOptionObj CHR ''f'' ''file'' ''Input file'')
                            \<lparr>Passed := True, OptArg := ''x'', OptArgs := [''x'']\<rparr>)]\<rparr>) 1 = Some opt'
           \<and> Passed opt' \<and> OptArgs opt' \<noteq> [])"
proof -
  let ?opt = "newOptionObj CHR ''f'' ''file'' ''Input file'' :: unit Option"
  let ?w0 = "snd (the (NewFlag CHR ''v'' ''verbose'' ''Increase verbosity'' (emptyWorld ())))"
  let ?fr = "\<lparr>world = (demoWorld ())
               \<lparr>heap := [FlagCell ((newFlagObj CHR ''v'' ''verbose'' ''Increase verbosity'')
                                     \<lparr>Passed := True, Count := 1\<rparr>),
                         OptionCell ((newOptionObj CHR ''f'' ''file'' ''Input file'')
                            \<lparr>Passed := True, OptArg := ''x'', OptArgs := [''x'']\<rparr>)]\<rparr>,
             rest = [], expect_optarg = True, waiting_opt = Some 1\<rparr>"
  have h: "asOption (demoWorld ()) 1 = Some ?opt"
    by (simp add: demoWorld_eq asOption_def)
  have n: "NewOption CHR ''f'' ''file'' ''Input file'' ?w0 = Some (1, demoWorld ())"
    by (simp add: demoWorld_def emptyWorld_def NewFlag_def NewOption_def checkShort_def
        checkLong_def Let_def)
  have k0: "historyKept ?w0"
    by (simp add: historyKept_def emptyWorld_def NewFlag_def checkShort_def checkLong_def Let_def)
  have k: "historyKept (demoWorld ())"
    by (simp add: historyKept_def demoWorld_eq newOptionObj_def)
  have t: "takesArg ?opt" by (simp add: newOptionObj_def)
  have s: "paramsByShort (demoWorld ()) CHR ''f'' = Some 1" by (simp add: demoWorld_eq)
  have r: "ArgParse [''prog'', ''--file=x'', ''-vf''] (demoWorld ()) = Done ?fr None"
    by (simp add: demo_eval)
  have z: "asOption w' 0 = None" if "\<forall>q. q \<noteq> 1 \<longrightarrow> asOption w' q = asOption (demoWorld ()) q"
    for w' :: "unit world"
    using that [rule_format, of 0] by (simp add: demoWorld_eq asOption_def)
  have e: "OptArgs ?opt = []" by (simp add: newOptionObj_def)
  note T = Option_history [where w = "demoWorld ()" and p = 1 and opt = ?opt and a = "''a''"
      and as = "[''a'', ''b'', ''a'']" and c = "CHR ''f''" and b = "''b''" and prog = "''prog''"
      and s = "CHR ''f''" and l = "''file''" and h = "''Input file''" and ?w0.0 = ?w0
      and argv = "[''prog'', ''--file=x'', ''-vf'']" and fr = ?fr and err = None, OF h]
  from T obtain w1 o1 where c1: "addOptArgAt 1 ''a'' (demoWorld ()) = Some w1"
      "asOption w1 1 = Some o1" "OptArgs o1 = OptArgs ?opt @ [''a'']" "OptArg o1 = ''a''" "Passed o1"
      "\<forall>q. q \<noteq> 1 \<longrightarrow> asOption w1 q = asOption (demoWorld ()) q"
    by blast
  from T obtain w2 o2 where c2: "addOptArgsAt 1 [''a'', ''b'', ''a''] (demoWorld ()) = Some w2"
      "asOption w2 1 = Some o2" "OptArgs o2 = OptArgs ?opt @ [''a'', ''b'', ''a'']"
      "[''a'', ''b'', ''a''] \<noteq> [] \<longrightarrow> OptArg o2 = last [''a'', ''b'', ''a''] \<and> Passed o2"
    by blast
  from T t s obtain w3 o3 where c3:
      "ArgParse [''prog'', ''-f'', ''a'', ''-f'', ''b''] (demoWorld ()) =
         Done \<lparr>world = w3, rest = [], expect_optarg = False, waiting_opt = Some 1\<rparr> None"
      "asOption w3 1 = Some o3" "OptArg o3 = ''b''" "OptArgs o3 = OptArgs ?opt @ [''a'', ''b'']"
      "Passed o3"
    by auto
  from T n k0 have c4: "historyKept (demoWorld ())" by blast
  from T c4 r have c5: "\<forall>q opt'. asOption (world ?fr) q = Some opt' \<longrightarrow> Passed opt' \<longrightarrow> OptArgs opt' \<noteq> []"
    by blast
  have a5: "asOption (world ?fr) 1 = Some ((newOptionObj CHR ''f'' ''file'' ''Input file'')
                            \<lparr>Passed := True, OptArg := ''x'', OptArgs := [''x'']\<rparr>)"
    by (simp add: demoWorld_eq asOption_def)
  have w4: "\<exists>w' opt'. addOptArgAt 1 ''a'' (demoWorld ()) = Some w' \<and> asOption w' 1 = Some opt'
         \<and> OptArgs opt' = [''a''] \<and> OptArg opt' = ''a'' \<and> Passed opt' \<and> asOption w' 0 = None"
    using c1 z [OF c1(6)] e by simp
  have w5: "\<exists>w' opt'. addOptArgsAt 1 [''a'', ''b'', ''a''] (demoWorld ()) = Some w'
         \<and> asOption w' 1 = Some opt'
         \<and> OptArgs opt' = [''a'', ''b'', ''a''] \<and> OptArg opt' = ''a'' \<and> Passed opt'"
    using c2 e by simp
  have w6: "\<exists>w' opt'. ArgParse [''prog'', ''-f'', ''a'', ''-f'', ''b''] (demoWorld ()) =
           Done \<lparr>world = w', rest = [], expect_optarg = False, waiting_opt = Some 1\<rparr> None
         \<and> asOption w' 1 = Some opt'
         \<and> OptArg opt' = ''b'' \<and> OptArgs opt' = [''a'', ''b''] \<and> Passed opt'"
    using c3 e by simp
  have w8: "\<exists>opt'. asOption (world ?fr) 1 = Some opt' \<and> Passed opt' \<and> OptArgs opt' \<noteq> []"
    using c5 [rule_format, OF a5] a5 by simp
  show ?thesis using h n c4 w4 w5 w6 r w8 by simp
qed

section \<open>Registries built by the constructors\<close>

text \<open>
  The constructors keep the registry well formed, deliveries keep it so, and on a well
  formed registry no type assertion of \<open>ArgParse\<close> fails: it returns for every input.
\<close>

lemma wellFormed_emptyWorld: "wellFormed (emptyWorld u)"
  by (simp add: wellFormed_def emptyWorld_def)

lemma wellFormed_resetParams: "wellFormed (resetParams w)"
  by (simp add: wellFormed_def resetParams_def)

lemma isFlag_isOption_append:
  assumes "isFlag w q \<or> isOption w q" "heap w' = heap w @ [c]"
  shows "isFlag w' q \<or> isOption w' q"
proof -
  have "q < length (heap w)"
    using assms(1) by (auto simp: isFlag_def isOption_def asFlag_def asOption_def split: if_splits)
  then show ?thesis
    using assms by (auto simp: isFlag_def isOption_def asFlag_def asOption_def nth_append)
qed

lemma wellFormed_extend:
  assumes "wellFormed w" "heap w' = heap w @ [c]"
    "isFlag w' (length (heap w)) \<or> isOption w' (length (heap w))"
    "ran (paramsByShort w') \<subseteq> insert (length (heap w)) (ran (paramsByShort w))"
    "ran (paramsByLong w') \<subseteq> insert (length (heap w)) (ran (paramsByLong w))"
  shows "wellFormed w'"
  unfolding wellFormed_def
proof
  fix p assume "p \<in> ran (paramsByShort w') \<union> ran (paramsByLong w')"
  then have "p = length (heap w) \<or> p \<in> ran (paramsByShort w) \<union> ran (paramsByLong w)"
    using assms(4,5) by auto
  then show "isFlag w' p \<or> isOption w' p"
  proof
    assume "p = length (heap w)"
    then show ?thesis using assms(3) by simp
  next
    assume "p \<in> ran (paramsByShort w) \<union> ran (paramsByLong w)"
    then have "isFlag w p \<or> isOption w p" using assms(1) by (simp add: wellFormed_def)
    from isFlag_isOption_append [OF this assms(2)] show ?thesis .
  qed
qed

lemma ran_upd_subset: "ran (m(a \<mapsto> b)) \<subseteq> insert b (ran m)"
  by (auto simp: ran_def)

lemma wellFormed_NewFlag:
  assumes "wellFormed w" "NewFlag s l h w = Some (p, w')"
  shows "wellFormed w' \<and> isFlag w' p"
proof -
  from assms(2) have w': "w' = w\<lparr>heap := heap w @ [FlagCell (newFlagObj s l h)],
                          Flags := Flags w @ [newFlagObj s l h],
                          paramsByShort := (paramsByShort w)(s \<mapsto> length (heap w)),
                          paramsByLong := (paramsByLong w)(l \<mapsto> length (heap w))\<rparr>"
    and p: "p = length (heap w)"
    by (auto simp: NewFlag_def Let_def split: if_splits)
  have f: "isFlag w' (length (heap w))"
    by (simp add: w' isFlag_def asFlag_def newFlagObj_def)
  have "wellFormed w'"
    by (rule wellFormed_extend [OF assms(1), of w' "FlagCell (newFlagObj s l h)"])
      (use f in \<open>simp_all add: w' ran_upd_subset\<close>)
  then show ?thesis using f p by simp
qed

lemma wellFormed_NewOption:
  assumes "wellFormed w" "NewOption s l h w = Some (p, w')"
  shows "wellFormed w' \<and> isOption w' p"
proof -
  from assms(2) have w': "w' = w\<lparr>heap := heap w @ [OptionCell (newOptionObj s l h)],
                          Options := Options w @ [newOptionObj s l h],
                          paramsByShort := (paramsByShort w)(s \<mapsto> length (heap w)),
                          paramsByLong := (paramsByLong w)(l \<mapsto> length (heap w))\<rparr>"
    and p: "p = length (heap w)"
    by (auto simp: NewOption_def Let_def split: if_splits)
  have f: "isOption w' (length (heap w))"
    by (simp add: w' isOption_def asOption_def newOptionObj_def)
  have "wellFormed w'"
    by (rule wellFormed_extend [OF assms(1), of w' "OptionCell (newOptionObj s l h)"])
      (use f in \<open>simp_all add: w' ran_upd_subset\<close>)
  then show ?thesis using f p by simp
qed

lemma wellFormed_NewFlagShort:
  assumes "wellFormed w" "NewFlagShort s h w = Some (p, w')"
  shows "wellFormed w' \<and> isFlag w' p"
proof -
  from assms(2) have w': "w' = w\<lparr>heap := heap w @ [FlagCell (newFlagObj s [] h)],
                          Flags := Flags w @ [newFlagObj s [] h],
                          paramsByShort := (paramsByShort w)(s \<mapsto> length (heap w))\<rparr>"
    and p: "p = length (heap w)"
    by (auto simp: NewFlagShort_def Let_def split: if_splits)
  have f: "isFlag w' (length (heap w))"
    by (simp add: w' isFlag_def asFlag_def newFlagObj_def)
  have "wellFormed w'"
    by (rule wellFormed_extend [OF assms(1), of w' "FlagCell (newFlagObj s [] h)"])
      (use f in \<open>auto simp: w' ran_def\<close>)
  then show ?thesis using f p by simp
qed

lemma wellFormed_NewFlagLong:
  assumes "wellFormed w" "NewFlagLong l h w = Some (p, w')"
  shows "wellFormed w' \<and> isFlag w' p"
proof -
  from assms(2) have w': "w' = w\<lparr>heap := heap w @ [FlagCell (newFlagObj (char_of (0 :: nat)) l h)],
                          Flags := Flags w @ [newFlagObj (char_of (0 :: nat)) l h],
                          paramsByLong := (paramsByLong w)(l \<mapsto> length (heap w))\<rparr>"
    and p: "p = length (heap w)"
    by (auto simp: NewFlagLong_def Let_def split: if_splits)
  have f: "isFlag w' (length (heap w))"
    by (simp add: w' isFlag_def asFlag_def newFlagObj_def)
  have "wellFormed w'"
    by (rule wellFormed_extend [OF assms(1), of w' "FlagCell (newFlagObj (char_of (0 :: nat)) l h)"])
      (use f in \<open>auto simp: w' ran_def\<close>)
  then show ?thesis using f p by simp
qed

lemma wellFormed_NewOptionShort:
  assumes "wellFormed w" "NewOptionShort s h w = Some (p, w')"
  shows "wellFormed w' \<and> isOption w' p"
proof -
  from assms(2) have w': "w' = w\<lparr>heap := heap w @ [OptionCell (newOptionObj s [] h)],
                          Options := Options w @ [newOptionObj s [] h],
                          paramsByShort := (paramsByShort w)(s \<mapsto> length (heap w))\<rparr>"
    and p: "p = length (heap w)"
    by (auto simp: NewOptionShort_def Let_def split: if_splits)
  have f: "isOption w' (length (heap w))"
    by (simp add: w' isOption_def asOption_def newOptionObj_def)
  have "wellFormed w'"
    by (rule wellFormed_extend [OF assms(1), of w' "OptionCell (newOptionObj s [] h)"])
      (use f in \<open>auto simp: w' ran_def\<close>)
  then show ?thesis using f p by simp
qed

lemma wellFormed_NewOptionLong:
  assumes "wellFormed w" "NewOptionLong l h w = Some (p, w')"
  shows "wellFormed w' \<and> isOption w' p"
proof -
  from assms(2) have w': "w' = w\<lparr>heap := heap w @ [OptionCell (newOptionObj (char_of (0 :: nat)) l h)],
                          Options := Options w @ [newOptionObj (char_of (0 :: nat)) l h],
                          paramsByLong := (paramsByLong w)(l \<mapsto> length (heap w))\<rparr>"
    and p: "p = length (heap w)"
    by (auto simp: NewOptionLong_def Let_def split: if_splits)
  have f: "isOption w' (length (heap w))"
    by (simp add: w' isOption_def asOption_def newOptionObj_def)
  have "wellFormed w'"
    by (rule wellFormed_extend [OF assms(1), of w' "OptionCell (newOptionObj (char_of (0 :: nat)) l h)"])
      (use f in \<open>auto simp: w' ran_def\<close>)
  then show ?thesis using f p by simp
qed

lemma wellFormed_demoWorld: "wellFormed (demoWorld u)"
proof -
  obtain v w1 where 1: "NewFlag CHR ''v'' ''verbose'' ''Increase verbosity'' (emptyWorld u) = Some (v, w1)"
    by (simp add: NewFlag_def emptyWorld_def checkShort_def checkLong_def Let_def)
  have wf1: "wellFormed w1" using wellFormed_NewFlag [OF wellFormed_emptyWorld 1] by simp
  obtain f w2 where 2: "NewOption CHR ''f'' ''file'' ''Input file'' w1 = Some (f, w2)"
    using 1 by (auto simp: NewFlag_def NewOption_def emptyWorld_def checkShort_def checkLong_def Let_def)
  have "wellFormed w2" using wellFormed_NewOption [OF wf1 2] by simp
  then show ?thesis using 1 2 by (simp add: demoWorld_def)
qed

lemma wellFormed_cong:
  assumes "wellFormed w" "paramsByShort w' = paramsByShort w" "paramsByLong w' = paramsByLong w"
    "\<And>q. isFlag w' q = isFlag w q" "\<And>q. isOption w' q = isOption w q"
  shows "wellFormed w'"
  using assms by (simp add: wellFormed_def)

lemma wellFormed_takeValueAt:
  "wellFormed w \<Longrightarrow> takeValueAt p v w = Some w' \<Longrightarrow> wellFormed w'"
  using takeValueAt_frame [of p v w w'] by (auto intro: wellFormed_cong)

lemma wellFormed_addOptArgAt:
  "wellFormed w \<Longrightarrow> addOptArgAt p a w = Some w' \<Longrightarrow> wellFormed w'"
  using addOptArgAt_frame [of p a w w'] by (auto intro: wellFormed_cong)

lemma wellFormed_deliverEach:
  "wellFormed w \<Longrightarrow> deliverEach v cs w = Some w' \<Longrightarrow> wellFormed w'"
  using deliverEach_frame [of v cs w w'] by (auto intro: wellFormed_cong)

lemma wellFormed_restArg: "wellFormed (world fr) \<Longrightarrow> wellFormed (world (restArg fr a d))"
  by (rule wellFormed_cong [of "world fr"])
    (simp_all add: restArg_eq isFlag_def isOption_def asFlag_def asOption_def)

lemma wellFormed_short:
  assumes "wellFormed w" "paramsByShort w c = Some p"
  shows "isFlag w p \<or> isOption w p"
  using assms by (auto simp: wellFormed_def ran_def)

lemma wellFormed_long:
  assumes "wellFormed w" "paramsByLong w l = Some p"
  shows "isFlag w p \<or> isOption w p"
  using assms by (auto simp: wellFormed_def ran_def)

lemma shortOpt_ok:
  assumes "wellFormed (world fr)" "\<not> expect_optarg fr"
  shows "shortOpt fr c \<noteq> Panic \<and> (\<forall>fr'. shortOpt fr c = Continue fr' \<longrightarrow> frameOK fr')"
proof (cases "paramsByShort (world fr) c")
  case None
  then show ?thesis by (simp add: shortOpt_def)
next
  case (Some p)
  from wellFormed_short [OF assms(1) Some] show ?thesis
  proof
    assume "isFlag (world fr) p"
    from isFlag_takeValueAt [OF this, of True] obtain w'
      where "takesArgument (world fr) p = Some False" "takeValueAt p True (world fr) = Some w'"
      by blast
    then show ?thesis
      using Some assms wellFormed_takeValueAt [of "world fr" p True w']
      by (simp add: shortOpt_def frameOK_def)
  next
    assume o: "isOption (world fr) p"
    from isOption_addOptArgAt [OF this, of "[]"] obtain opt
      where "takesArgument (world fr) p = Some True" "asOption (world fr) p = Some opt"
      by auto
    then show ?thesis using Some assms o by (simp add: shortOpt_def frameOK_def)
  qed
qed

lemma longOpt_ok:
  assumes "wellFormed (world fr)" "\<not> expect_optarg fr"
  shows "longOpt fr l \<noteq> Panic \<and> (\<forall>fr'. longOpt fr l = Continue fr' \<longrightarrow> frameOK fr')"
proof (cases "paramsByLong (world fr) l")
  case None
  then show ?thesis by (simp add: longOpt_def)
next
  case (Some p)
  from wellFormed_long [OF assms(1) Some] show ?thesis
  proof
    assume "isFlag (world fr) p"
    from isFlag_takeValueAt [OF this, of True] obtain w'
      where "takesArgument (world fr) p = Some False" "takeValueAt p True (world fr) = Some w'"
      by blast
    then show ?thesis
      using Some assms wellFormed_takeValueAt [of "world fr" p True w']
      by (simp add: longOpt_def frameOK_def)
  next
    assume o: "isOption (world fr) p"
    from isOption_addOptArgAt [OF this, of "[]"] obtain opt
      where "takesArgument (world fr) p = Some True" "asOption (world fr) p = Some opt"
      by auto
    then show ?thesis using Some assms o by (simp add: longOpt_def frameOK_def)
  qed
qed

lemma longOptArg_ok:
  assumes "wellFormed (world fr)" "\<not> expect_optarg fr"
  shows "longOptArg fr l a \<noteq> Panic \<and> (\<forall>fr'. longOptArg fr l a = Continue fr' \<longrightarrow> frameOK fr')"
proof (cases "paramsByLong (world fr) l")
  case None
  then show ?thesis by (simp add: longOptArg_def)
next
  case (Some p)
  from wellFormed_long [OF assms(1) Some] show ?thesis
  proof
    assume f: "isFlag (world fr) p"
    have ta: "takesArgument (world fr) p = Some False"
      using isFlag_takeValueAt [OF f, of True] by simp
    show ?thesis
    proof (cases "parseFlagOpt l a")
      case (Inl e)
      then show ?thesis using Some ta by (simp add: longOptArg_def)
    next
      case (Inr v)
      from isFlag_takeValueAt [OF f, of v] obtain w' where "takeValueAt p v (world fr) = Some w'"
        by blast
      then show ?thesis
        using Some ta Inr assms wellFormed_takeValueAt [of "world fr" p v w']
        by (simp add: longOptArg_def frameOK_def)
    qed
  next
    assume o: "isOption (world fr) p"
    from isOption_addOptArgAt [OF this, of a] obtain w'
      where "takesArgument (world fr) p = Some True" "addOptArgAt p a (world fr) = Some w'"
      by auto
    then show ?thesis
      using Some assms wellFormed_addOptArgAt [of "world fr" p a w']
      by (simp add: longOptArg_def frameOK_def)
  qed
qed

lemma negShort_ok:
  assumes "wellFormed (world fr)" "\<not> expect_optarg fr"
  shows "negShort fr c \<noteq> Panic \<and> (\<forall>fr'. negShort fr c = Continue fr' \<longrightarrow> frameOK fr')"
proof (cases "paramsByShort (world fr) c")
  case None
  then show ?thesis by (simp add: negShort_def)
next
  case (Some p)
  from wellFormed_short [OF assms(1) Some] show ?thesis
  proof
    assume "isFlag (world fr) p"
    from isFlag_takeValueAt [OF this, of False] obtain w'
      where "takesArgument (world fr) p = Some False" "takeValueAt p False (world fr) = Some w'"
      by blast
    then show ?thesis
      using Some assms wellFormed_takeValueAt [of "world fr" p False w']
      by (simp add: negShort_def frameOK_def)
  next
    assume o: "isOption (world fr) p"
    from isOption_addOptArgAt [OF this, of "[]"]
    have "takesArgument (world fr) p = Some True" by simp
    then show ?thesis using Some by (simp add: negShort_def)
  qed
qed

lemma negClump_ok:
  assumes "wellFormed (world fr)" "\<not> expect_optarg fr"
  shows "negClump fr arg j \<noteq> Panic \<and> (\<forall>fr'. negClump fr arg j = Continue fr' \<longrightarrow> frameOK fr')"
proof -
  from negClump_decomp [of j arg fr] obtain pre post w'
    where d: "drop j arg = pre @ post" "deliverEach False pre (world fr) = Some w'"
      "negClump fr arg j = negClump (fr\<lparr>world := w'\<rparr>) arg (j + length pre)"
      "drop (j + length pre) arg = post" "post = [] \<or> \<not> shortIsFlag w' (hd post)"
    by blast
  have wf: "wellFormed w'" using wellFormed_deliverEach [OF assms(1) d(2)] .
  show ?thesis
  proof (cases post)
    case Nil
    then have "length arg \<le> j + length pre" using d(4) by simp
    then have "negClump fr arg j = Continue (fr\<lparr>world := w'\<rparr>)"
      using d(3) by (simp add: negClump_end)
    then show ?thesis using wf assms(2) by (simp add: frameOK_def)
  next
    case (Cons c post')
    then have nf: "\<not> shortIsFlag (world (fr\<lparr>world := w'\<rparr>)) c" using d(5) by simp
    have dd: "drop (j + length pre) arg = c # post'" using d(4) Cons by simp
    have np: "negShort (fr\<lparr>world := w'\<rparr>) c \<noteq> Panic"
      using negShort_ok [of "fr\<lparr>world := w'\<rparr>" c] wf assms(2) by simp
    with negShort_not_flag [OF nf] obtain e
      where "negShort (fr\<lparr>world := w'\<rparr>) c = Return (fr\<lparr>world := w'\<rparr>) (Some e)"
      by blast
    from negClump_stop [OF dd this] show ?thesis using d(3) by simp
  qed
qed

lemma clump_ok:
  assumes "wellFormed (world fr)" "\<not> expect_optarg fr"
  shows "clump fr arg j \<noteq> Panic \<and> (\<forall>fr'. clump fr arg j = Continue fr' \<longrightarrow> frameOK fr')"
proof -
  from clump_decomp [of j arg fr] obtain pre post w'
    where d: "drop j arg = pre @ post" "deliverEach True pre (world fr) = Some w'"
      "clump fr arg j = clump (fr\<lparr>world := w'\<rparr>) arg (j + length pre)"
      "drop (j + length pre) arg = post" "post = [] \<or> \<not> shortIsFlag w' (hd post)"
    by blast
  have wf: "wellFormed w'" using wellFormed_deliverEach [OF assms(1) d(2)] .
  show ?thesis
  proof (cases post)
    case Nil
    then have "length arg \<le> j + length pre" using d(4) by simp
    then have "clump fr arg j = Continue (fr\<lparr>world := w'\<rparr>)"
      using d(3) by (simp add: clump_end)
    then show ?thesis using wf assms(2) by (simp add: frameOK_def)
  next
    case (Cons c post')
    then have nf: "\<not> shortIsFlag (world (fr\<lparr>world := w'\<rparr>)) c" using d(5) by simp
    have dd: "drop (j + length pre) arg = c # post'" using d(4) Cons by simp
    note h = clump_head [OF dd nf]
    show ?thesis
    proof (cases "paramsByShort w' c")
      case None
      then show ?thesis using h d(3) by simp
    next
      case (Some p)
      have "\<not> isFlag w' p" using nf Some by (simp add: shortIsFlag_def)
      then have o: "isOption w' p" using wellFormed_short [OF wf Some] by simp
      from isOption_addOptArgAt [OF o, of "c # post'"] obtain opt w''
        where a: "takesArgument w' p = Some True" "asOption w' p = Some opt"
          "addOptArgAt p (c # post') w' = Some w''"
        by auto
      have wf'': "wellFormed w''" using wellFormed_addOptArgAt [OF wf a(3)] .
      show ?thesis
        using h d(3) Some a wf wf'' o assms(2) by (simp add: frameOK_def)
    qed
  qed
qed

lemma body_ok:
  assumes "frameOK fr"
  shows "body fr arg args \<noteq> Panic \<and> (\<forall>fr'. body fr arg args = Continue fr' \<longrightarrow> frameOK fr')"
proof (cases "expect_optarg fr")
  case True
  then obtain p where p: "waiting_opt fr = Some p" "isOption (world fr) p"
    using assms by (auto simp: frameOK_def split: option.splits)
  from isOption_addOptArgAt [OF p(2), of arg] obtain w'
    where w': "addOptArgAt p arg (world fr) = Some w'" by blast
  have "wellFormed w'" using wellFormed_addOptArgAt [OF _ w'] assms by (simp add: frameOK_def)
  then show ?thesis using True p w' by (simp add: body_def frameOK_def)
next
  case False
  have wf: "wellFormed (world fr)" using assms by (simp add: frameOK_def)
  have r: "frameOK (restArg fr arg False)"
    using wellFormed_restArg [OF wf, of arg False] False restArg_expect [of fr arg False]
    by (simp add: frameOK_def)
  show ?thesis
    using False assms r shortOpt_ok [OF wf False] negShort_ok [OF wf False]
      longOpt_ok [OF wf False] longOptArg_ok [OF wf False]
      clump_ok [OF wf False] negClump_ok [OF wf False]
    by (subst (1 2) body_cases) simp
qed

lemma loop_ok: "frameOK fr \<Longrightarrow> \<exists>fr' err. loop fr ts = Done fr' err"
proof (induction ts arbitrary: fr)
  case Nil
  show ?case by simp
next
  case (Cons a ts)
  show ?case
  proof (cases "body fr a ts")
    case (Continue fr1)
    then have "frameOK fr1" using body_ok [OF Cons.prems, of a ts] by simp
    from Cons.IH [OF this] show ?thesis using Continue by simp
  next
    case (Return fr1 err)
    then show ?thesis by simp
  next
    case Panic
    then show ?thesis using body_ok [OF Cons.prems, of a ts] by simp
  qed
qed

lemma ArgParse_returns:
  assumes "wellFormed w"
  shows "\<exists>fr err. ArgParse argv w = Done fr err"
  unfolding ArgParse_def
  by (rule loop_ok) (simp add: frameOK_def initFrame_def assms)

section \<open>The tests of the repository\<close>

text \<open>
  The nine cases of the test file, run on the model: each starts from \<open>resetParams\<close>
  and registers its Flags with \<open>NewFlag\<close>.
\<close>

lemmas test_eval =
  testWorld_def resetParams_def emptyWorld_def NewFlag_def checkShort_def checkLong_def passedAt_def
  initFrame_def ArgParse_def body_def clump.simps negClump.simps shortOpt_def
  negShort_def longOpt_def longOptArg_def takesArgument_def asOption_def asFlag_def
  takeValueAt_def takeValue_def addOptArgAt_def addOptArg_def restArg_def addRest_def
  newFlagObj_def newOptionObj_def IndexByte_def parseFlagOpt_def foldASCII_def Let_def

lemma TestParseCase01_to_06:
  "(case NewFlag CHR ''v'' ''verbose'' ''Increase verbosity'' testWorld of
      None \<Rightarrow> False
    | Some (verbose, w) \<Rightarrow>
        passedAt (ArgParse [''test'', ''-v''] w) verbose = Some True
        \<and> passedAt (ArgParse [''test'', ''--'', ''-v''] w) verbose = Some False
        \<and> passedAt (ArgParse [''test'', ''--verbose''] w) verbose = Some True
        \<and> passedAt (ArgParse [''test'', ''--'', ''--verbose''] w) verbose = Some False
        \<and> passedAt (ArgParse [''test'', ''--verbose=true''] w) verbose = Some True
        \<and> passedAt (ArgParse [''test'', ''-v'', ''+v''] w) verbose = Some False)"
  by (simp add: test_eval)

lemma TestParseCase07:
  "(case NewFlag CHR ''v'' ''verbose'' ''Increase verbosity'' testWorld of
      None \<Rightarrow> False
    | Some (verbose, w1) \<Rightarrow>
        (case NewFlag CHR ''a'' ''all'' ''All things'' w1 of
           None \<Rightarrow> False
         | Some (all, w) \<Rightarrow>
             passedAt (ArgParse [''test'', ''-av''] w) verbose = Some True
             \<and> passedAt (ArgParse [''test'', ''-av''] w) all = Some True))"
  by (simp add: test_eval)

lemma TestParseCase08_09:
  "(case NewFlag CHR ''v'' ''verbose'' ''Increase verbosity'' testWorld of
      None \<Rightarrow> False
    | Some (verbose, w) \<Rightarrow>
        passedAt (ArgParse [''test'', ''-v'', ''--verbose=false''] w) verbose = Some False
        \<and> passedAt (ArgParse [''test'', ''hello'', ''-'', ''-v'', ''--'', ''-''] w) verbose = Some True
        \<and> (case ArgParse [''test'', ''hello'', ''-'', ''-v'', ''--'', ''-''] w of
              Done fr err \<Rightarrow>
                rest fr = [\<lparr>Argument = ''hello'', AfterDashes = False\<rparr>,
                           \<lparr>Argument = ''-'', AfterDashes = False\<rparr>,
                           \<lparr>Argument = ''-'', AfterDashes = True\<rparr>]
            | Crash \<Rightarrow> False))"
  by (simp add: test_eval)

end
